theory Spec2Isabelle
  imports Main
begin

section \<open>JavaScript values\<close>

text \<open>
  The engine handles untyped data at its boundary: the output of the JSON5 parser, the
  actions of a sequence, the option bags handed to the automation backend and the results
  the backend returns.  They are modelled by one datatype of JavaScript values.  An object
  is an association list; reading a property that is absent yields \<open>Undefined\<close>, as in
  JavaScript.  Numbers are integers here: the modelled code only tests a number for being
  a number, for being \<open>undefined\<close> and for being falsy (zero).
\<close>

datatype jsval =
    Undefined
  | Null
  | Bool bool
  | Num int
  | Str string
  | Arr "jsval list"
  | Obj "(string \<times> jsval) list"

type_synonym obj = "(string \<times> jsval) list"

definition get :: "string \<Rightarrow> obj \<Rightarrow> jsval" where
  "get k kvs = (case map_of kvs k of None \<Rightarrow> Undefined | Some v \<Rightarrow> v)"

text \<open>\<open>k in o\<close>: the key is present, whatever its value.\<close>

definition has_key :: "string \<Rightarrow> obj \<Rightarrow> bool" where
  "has_key k kvs = (k \<in> set (map fst kvs))"

text \<open>
  Assignment \<open>o[k] = v\<close> and the object literal / spread \<open>{...a, ...b}\<close>: a key that is
  already present keeps its position and takes the new value, a new key is appended.
\<close>

fun assign :: "'k \<Rightarrow> 'v \<Rightarrow> ('k \<times> 'v) list \<Rightarrow> ('k \<times> 'v) list" where
  "assign k v [] = [(k, v)]"
| "assign k v ((k', v') # kvs) = (if k = k' then (k, v) # kvs else (k', v') # assign k v kvs)"

fun spread :: "('k \<times> 'v) list \<Rightarrow> ('k \<times> 'v) list \<Rightarrow> ('k \<times> 'v) list" where
  "spread base [] = base"
| "spread base ((k, v) # kvs) = spread (assign k v base) kvs"

text \<open>Truthiness (\<open>if (v)\<close>, \<open>v || d\<close>) and the nullish test of \<open>v ?? d\<close>.\<close>

fun truthy :: "jsval \<Rightarrow> bool" where
  "truthy Undefined = False"
| "truthy Null = False"
| "truthy (Bool b) = b"
| "truthy (Num n) = (n \<noteq> 0)"
| "truthy (Str s) = (s \<noteq> [])"
| "truthy (Arr xs) = True"
| "truthy (Obj kvs) = True"

definition or_else :: "jsval \<Rightarrow> jsval \<Rightarrow> jsval" where
  "or_else v d = (if truthy v then v else d)"

definition nullish_else :: "jsval \<Rightarrow> jsval \<Rightarrow> jsval" where
  "nullish_else v d = (if v = Undefined \<or> v = Null then d else v)"

section \<open>The validation library\<close>

text \<open>
  \<^verbatim>\<open>schemas.ts\<close> declares every shape with the combinators of the zod library.  The
  combinators the file uses are modelled as a datatype of schemas with one interpreter,
  \<open>zparse\<close>, which follows the library's documented behaviour:
  \<^item> \<open>z.object\<close> checks every key of its shape against the input and returns a new object
    holding the keys of the shape only; keys of the input outside the shape are dropped
    silently (\<open>Strip\<close>, the default) unless the object schema was made \<open>.strict()\<close>, in
    which case they are an error;
  \<^item> \<open>.extend(fields)\<close> adds or overrides keys of the shape and keeps the unknown-key
    policy of the schema it is called on; \<open>.shape\<close> is the bare shape, without policy;
  \<^item> \<open>z.discriminatedUnion\<close> selects the member whose discriminator literal equals the
    input's discriminator value and parses with that member alone;
  \<^item> \<open>.optional()\<close> accepts \<open>undefined\<close>, here an absent key.
  A failed parse throws a \<open>ZodError\<close>; the interpreter returns the first issue found.
  Only success or failure of a parse, and the value returned on success, matter below.
\<close>

datatype unknownKeys = Strip | Strict

datatype schema =
    ZString
  | ZNumber
  | ZBoolean
  | ZAny
  | ZLiteral string
  | ZEnum "string list"
  | ZUnion "schema list"
  | ZOptional schema
  | ZArray schema
  | ZRecord schema
  | ZObject "(string \<times> schema) list" unknownKeys
  | ZDiscriminatedUnion string "schema list"

datatype zod_issue =
    invalid_type
  | invalid_literal
  | invalid_enum_value
  | invalid_union
  | invalid_union_discriminator
  | unrecognized_keys

text \<open>The discriminator literal a member of a discriminated union declares.\<close>

fun discriminator_of :: "string \<Rightarrow> schema \<Rightarrow> string option" where
  "discriminator_of d (ZObject shp uk) =
     (case map_of shp d of Some (ZLiteral l) \<Rightarrow> Some l | _ \<Rightarrow> None)"
| "discriminator_of d s = None"

text \<open>A union takes the first member that parses; an array or object needs all parts.\<close>

fun first_success :: "('e + 'a) list \<Rightarrow> 'e \<Rightarrow> 'e + 'a" where
  "first_success [] e = Inl e"
| "first_success (r # rs) e = (case r of Inr x \<Rightarrow> Inr x | Inl _ \<Rightarrow> first_success rs e)"

fun all_success :: "('e + 'a) list \<Rightarrow> 'e + 'a list" where
  "all_success [] = Inr []"
| "all_success (r # rs) =
     (case r of
        Inl e \<Rightarrow> Inl e
      | Inr x \<Rightarrow> (case all_success rs of Inl e \<Rightarrow> Inl e | Inr xs \<Rightarrow> Inr (x # xs)))"

definition keyed :: "'k \<Rightarrow> 'e + 'a \<Rightarrow> 'e + ('k \<times> 'a)" where
  "keyed k r = (case r of Inl e \<Rightarrow> Inl e | Inr x \<Rightarrow> Inr (k, x))"

text \<open>Size estimates for the termination of the interpreter.\<close>

lemma size_list_member: "x \<in> set xs \<Longrightarrow> f x < Suc (size_list f xs)"
  by (induction xs) auto

lemma size_shape_member:
  "(k, s) \<in> set shp \<Longrightarrow> size s < Suc (size_list (size_prod (\<lambda>x. 0) size) shp)"
  by (induction shp) auto

lemma filter_head_member: "filter P xs = y # ys \<Longrightarrow> y \<in> set xs"
  by (metis filter_is_subset list.set_intros(1) subsetD)

text \<open>
  An object schema parses the value found under each key of its shape, in the order of the
  shape.  A key is set in the result when its parsed value is defined or the key was
  present in the input.
\<close>

function (sequential) zparse :: "schema \<Rightarrow> jsval \<Rightarrow> zod_issue + jsval" where
  "zparse ZString v = (case v of Str s \<Rightarrow> Inr v | _ \<Rightarrow> Inl invalid_type)"
| "zparse ZNumber v = (case v of Num n \<Rightarrow> Inr v | _ \<Rightarrow> Inl invalid_type)"
| "zparse ZBoolean v = (case v of Bool b \<Rightarrow> Inr v | _ \<Rightarrow> Inl invalid_type)"
| "zparse ZAny v = Inr v"
| "zparse (ZLiteral l) v = (if v = Str l then Inr v else Inl invalid_literal)"
| "zparse (ZEnum ls) v =
     (case v of Str s \<Rightarrow> if s \<in> set ls then Inr v else Inl invalid_enum_value
              | _ \<Rightarrow> Inl invalid_type)"
| "zparse (ZUnion ss) v = first_success (map (\<lambda>s. zparse s v) ss) invalid_union"
| "zparse (ZOptional s) v = (if v = Undefined then Inr Undefined else zparse s v)"
| "zparse (ZArray s) v =
     (case v of
        Arr xs \<Rightarrow> (case all_success (map (\<lambda>x. zparse s x) xs) of
                     Inl e \<Rightarrow> Inl e | Inr ys \<Rightarrow> Inr (Arr ys))
      | _ \<Rightarrow> Inl invalid_type)"
| "zparse (ZRecord s) v =
     (case v of
        Obj kvs \<Rightarrow> (case all_success (map (\<lambda>kx. keyed (fst kx) (zparse s (snd kx))) kvs) of
                      Inl e \<Rightarrow> Inl e | Inr out \<Rightarrow> Inr (Obj out))
      | _ \<Rightarrow> Inl invalid_type)"
| "zparse (ZObject shp uk) v =
     (case v of
        Obj kvs \<Rightarrow>
          (case all_success (map (\<lambda>ks. keyed (fst ks) (zparse (snd ks) (get (fst ks) kvs))) shp) of
             Inl e \<Rightarrow> Inl e
           | Inr out \<Rightarrow>
               if uk = Strict \<and> \<not> set (map fst kvs) \<subseteq> set (map fst shp)
               then Inl unrecognized_keys
               else Inr (Obj (filter (\<lambda>ky. snd ky \<noteq> Undefined \<or> has_key (fst ky) kvs) out)))
      | _ \<Rightarrow> Inl invalid_type)"
| "zparse (ZDiscriminatedUnion d opts) v =
     (case v of
        Obj kvs \<Rightarrow>
          (case get d kvs of
             Str tag \<Rightarrow>
               (case filter (\<lambda>opt. discriminator_of d opt = Some tag) opts of
                  [] \<Rightarrow> Inl invalid_union_discriminator
                | opt # _ \<Rightarrow> zparse opt v)
           | _ \<Rightarrow> Inl invalid_union_discriminator)
      | _ \<Rightarrow> Inl invalid_type)"
  by pat_completeness auto

termination
  apply (relation "measure (\<lambda>(s, v). size s)")
  apply (auto simp: size_list_member size_shape_member dest!: filter_head_member)
  done

text \<open>The schema methods \<^verbatim>\<open>schemas.ts\<close> uses to build one shape from another.\<close>

fun shape :: "schema \<Rightarrow> (string \<times> schema) list" where
  "shape (ZObject shp uk) = shp"
| "shape s = []"

fun extend :: "schema \<Rightarrow> (string \<times> schema) list \<Rightarrow> schema" where
  "extend (ZObject shp uk) fields = ZObject (spread shp fields) uk"
| "extend s fields = s"

fun strict :: "schema \<Rightarrow> schema" where
  "strict (ZObject shp uk) = ZObject shp Strict"
| "strict s = s"

definition object :: "(string \<times> schema) list \<Rightarrow> schema" where
  "object shp = ZObject shp Strip"

definition optional :: "schema \<Rightarrow> schema" where
  "optional s = ZOptional s"

section \<open>The action contract (\<^verbatim>\<open>schemas.ts\<close>)\<close>

subsection \<open>Basic types\<close>

definition PointSchema :: schema where
  "PointSchema = object [(''x'', ZNumber), (''y'', ZNumber)]"

definition ScrollDirectionSchema :: schema where
  "ScrollDirectionSchema = ZEnum [''up'', ''down'', ''left'', ''right'']"

definition ScrollTypeSchema :: schema where
  "ScrollTypeSchema = ZEnum [''once'', ''untilBottom'', ''untilTop'', ''untilLeft'', ''untilRight'']"

definition DomIncludeOptionSchema :: schema where
  "DomIncludeOptionSchema = ZUnion [ZBoolean, ZLiteral ''visible-only'']"

definition KeyboardKeySchema :: schema where
  "KeyboardKeySchema =
     ZUnion [ZEnum [''Enter'', ''Tab'', ''Escape'', ''Backspace'', ''Delete'',
                    ''ArrowUp'', ''ArrowDown'', ''ArrowLeft'', ''ArrowRight''],
             ZString]"

definition AIActionTypeSchema :: schema where
  "AIActionTypeSchema = ZEnum
     [''ai'', ''aiAction'',
      ''aiTap'', ''aiInput'', ''aiHover'', ''aiKeyboardPress'', ''aiScroll'',
      ''aiRightClick'', ''aiDoubleClick'',
      ''aiLocate'', ''aiWaitFor'', ''aiAssert'',
      ''aiQuery'', ''aiExtract'', ''aiAsk'', ''aiBoolean'', ''aiNumber'', ''aiString'',
      ''runYaml'', ''evaluateJavaScript'', ''logScreenshot'', ''describeElementAtPoint'',
      ''verifyLocator'', ''freezePageContext'', ''unfreezePageContext'', ''setAIActionContext'']"

subsection \<open>Option types\<close>

definition LocateOptionSchema :: schema where
  "LocateOptionSchema =
     strict (object [(''deepThink'', optional ZBoolean), (''cacheable'', optional ZBoolean)])"

definition AndroidDeviceInputOptSchema :: schema where
  "AndroidDeviceInputOptSchema = strict (object [(''autoDismissKeyboard'', optional ZBoolean)])"

definition ScrollParamSchema :: schema where
  "ScrollParamSchema =
     strict (object [(''direction'', ScrollDirectionSchema),
                     (''scrollType'', ScrollTypeSchema),
                     (''distance'', optional ZNumber)])"

definition InsightExtractOptionSchema :: schema where
  "InsightExtractOptionSchema =
     strict (object [(''domIncluded'', optional DomIncludeOptionSchema),
                     (''screenshotIncluded'', optional ZBoolean)])"

definition AgentAssertOptSchema :: schema where
  "AgentAssertOptSchema = strict (object [(''timeoutMs'', optional ZNumber)])"

definition AgentWaitForOptSchema :: schema where
  "AgentWaitForOptSchema =
     strict (object [(''timeoutMs'', optional ZNumber), (''checkIntervalMs'', optional ZNumber)])"

definition LocatorValidatorOptionSchema :: schema where
  "LocatorValidatorOptionSchema =
     strict (object [(''verifyPrompt'', optional ZBoolean),
                     (''retryLimit'', optional ZNumber),
                     (''deepThink'', optional ZBoolean)])"

subsection \<open>Action parameters\<close>

definition BaseActionParamsSchema :: schema where
  "BaseActionParamsSchema = object [(''type'', AIActionTypeSchema)]"

definition AIPlanningParamsSchema :: schema where
  "AIPlanningParamsSchema =
     extend BaseActionParamsSchema [(''prompt'', ZString), (''cacheable'', optional ZBoolean)]"

definition InteractionParamsSchema :: schema where
  "InteractionParamsSchema =
     extend (extend BaseActionParamsSchema [(''locate'', ZString)]) (shape LocateOptionSchema)"

definition InputParamsSchema :: schema where
  "InputParamsSchema =
     extend (extend InteractionParamsSchema [(''text'', ZString)])
            (shape AndroidDeviceInputOptSchema)"

definition KeyboardParamsSchema :: schema where
  "KeyboardParamsSchema =
     extend (extend BaseActionParamsSchema
               [(''key'', KeyboardKeySchema), (''locate'', optional ZString)])
            (shape LocateOptionSchema)"

definition ScrollParamsSchema :: schema where
  "ScrollParamsSchema =
     extend (extend BaseActionParamsSchema
               [(''scrollParam'', ScrollParamSchema), (''locate'', optional ZString)])
            (shape LocateOptionSchema)"

definition QueryParamsSchema :: schema where
  "QueryParamsSchema =
     extend (extend BaseActionParamsSchema
               [(''dataDemand'', ZUnion [ZString, ZRecord ZString])])
            (shape InsightExtractOptionSchema)"

definition AssertParamsSchema :: schema where
  "AssertParamsSchema =
     extend (extend BaseActionParamsSchema
               [(''assertion'', ZString), (''errorMsg'', optional ZString)])
            (shape AgentAssertOptSchema)"

definition WaitForParamsSchema :: schema where
  "WaitForParamsSchema =
     extend (extend BaseActionParamsSchema [(''assertion'', ZString)])
            (shape AgentWaitForOptSchema)"

definition DescribeElementParamsSchema :: schema where
  "DescribeElementParamsSchema =
     extend (extend BaseActionParamsSchema [(''x'', ZNumber), (''y'', ZNumber)])
            (shape LocatorValidatorOptionSchema)"

definition YamlParamsSchema :: schema where
  "YamlParamsSchema = extend BaseActionParamsSchema [(''yamlScriptContent'', ZString)]"

definition ContextParamsSchema :: schema where
  "ContextParamsSchema = extend BaseActionParamsSchema [(''actionContext'', ZString)]"

definition JavaScriptParamsSchema :: schema where
  "JavaScriptParamsSchema = extend BaseActionParamsSchema [(''script'', ZString)]"

definition ScreenshotParamsSchema :: schema where
  "ScreenshotParamsSchema =
     extend BaseActionParamsSchema
       [(''title'', optional ZString), (''content'', optional ZString)]"

subsection \<open>The unified action definition and the action sequence\<close>

definition AIActionOptions :: "schema list" where
  "AIActionOptions =
    [extend AIPlanningParamsSchema [(''type'', ZLiteral ''ai'')],
     extend AIPlanningParamsSchema [(''type'', ZLiteral ''aiAction'')],
     extend InteractionParamsSchema [(''type'', ZLiteral ''aiTap'')],
     extend InteractionParamsSchema [(''type'', ZLiteral ''aiHover'')],
     extend InteractionParamsSchema [(''type'', ZLiteral ''aiRightClick'')],
     extend InteractionParamsSchema [(''type'', ZLiteral ''aiDoubleClick'')],
     extend InteractionParamsSchema [(''type'', ZLiteral ''aiLocate'')],
     extend InputParamsSchema [(''type'', ZLiteral ''aiInput'')],
     extend KeyboardParamsSchema [(''type'', ZLiteral ''aiKeyboardPress'')],
     extend ScrollParamsSchema [(''type'', ZLiteral ''aiScroll'')],
     extend QueryParamsSchema [(''type'', ZLiteral ''aiQuery'')],
     extend QueryParamsSchema [(''type'', ZLiteral ''aiExtract'')],
     extend (extend AIPlanningParamsSchema (shape InsightExtractOptionSchema))
            [(''type'', ZLiteral ''aiAsk'')],
     extend (extend AIPlanningParamsSchema (shape InsightExtractOptionSchema))
            [(''type'', ZLiteral ''aiBoolean'')],
     extend (extend AIPlanningParamsSchema (shape InsightExtractOptionSchema))
            [(''type'', ZLiteral ''aiNumber'')],
     extend (extend AIPlanningParamsSchema (shape InsightExtractOptionSchema))
            [(''type'', ZLiteral ''aiString'')],
     extend AssertParamsSchema [(''type'', ZLiteral ''aiAssert'')],
     extend WaitForParamsSchema [(''type'', ZLiteral ''aiWaitFor'')],
     extend DescribeElementParamsSchema [(''type'', ZLiteral ''describeElementAtPoint'')],
     extend YamlParamsSchema [(''type'', ZLiteral ''runYaml'')],
     extend ContextParamsSchema [(''type'', ZLiteral ''setAIActionContext'')],
     extend JavaScriptParamsSchema [(''type'', ZLiteral ''evaluateJavaScript'')],
     extend ScreenshotParamsSchema [(''type'', ZLiteral ''logScreenshot'')],
     extend BaseActionParamsSchema [(''type'', ZLiteral ''freezePageContext'')],
     extend BaseActionParamsSchema [(''type'', ZLiteral ''unfreezePageContext'')],
     extend (extend BaseActionParamsSchema
               [(''type'', ZLiteral ''verifyLocator''),
                (''prompt'', ZString),
                (''expectCenter'', PointSchema)])
            (shape LocatorValidatorOptionSchema)]"

definition AIActionSchema :: schema where
  "AIActionSchema = ZDiscriminatedUnion ''type'' AIActionOptions"

definition ActionSequenceSchema :: schema where
  "ActionSequenceSchema =
     object [(''actions'', ZArray AIActionSchema),
             (''display'', object [(''code'', ZArray ZString), (''description'', ZString)])]"

text \<open>
  \<^verbatim>\<open>PromptGenerator.validateAction\<close> and \<^verbatim>\<open>validateActionSequence\<close>: the pair is
  \<open>(isValid, error)\<close>.  The text of a \<open>ZodError\<close> is not modelled beyond its issue code.
\<close>

fun ZodError_message :: "zod_issue \<Rightarrow> string" where
  "ZodError_message invalid_type = ''invalid_type''"
| "ZodError_message invalid_literal = ''invalid_literal''"
| "ZodError_message invalid_enum_value = ''invalid_enum_value''"
| "ZodError_message invalid_union = ''invalid_union''"
| "ZodError_message invalid_union_discriminator = ''invalid_union_discriminator''"
| "ZodError_message unrecognized_keys = ''unrecognized_keys''"

definition validateAction :: "jsval \<Rightarrow> bool \<times> string option" where
  "validateAction a =
     (case zparse AIActionSchema a of
        Inr parsed \<Rightarrow> (True, None)
      | Inl issue \<Rightarrow> (False, Some (ZodError_message issue)))"

definition validateActionSequence :: "jsval \<Rightarrow> bool \<times> string option" where
  "validateActionSequence sq =
     (case zparse ActionSequenceSchema sq of
        Inr parsed \<Rightarrow> (True, None)
      | Inl issue \<Rightarrow> (False, Some (ZodError_message issue)))"

section \<open>Steps, cases and the environment\<close>

datatype step_status = Pending | Running | Success | Failed | Skipped

datatype case_status = Created | CaseRunning | Completed | CaseFailed | Stopped

text \<open>
  A step is the object \<open>{...action, id, description, status, rawCode}\<close>: the properties
  of its action, over which the four keys written after the spread win.  The model keeps
  the action's properties in \<open>action\<close> and the keys the engine itself writes or tests
  (\<open>id\<close>, \<open>description\<close>, \<open>status\<close>, \<open>rawCode\<close>, \<open>startTime\<close>, \<open>endTime\<close>, \<open>error\<close>,
  \<open>result\<close>) in fields of their own; a read of one of these eight keys is a read of the
  field, a read of any other key is a read of \<open>action\<close>.  The last five hold JavaScript
  values, \<open>Undefined\<close> when the key is absent: a time stamp is a number, an error a string,
  and before the engine has written them they hold whatever the action itself carried
  under that key, since the spread copies every property of the action.
\<close>

record test_step =
  action :: obj
  step_id :: string
  description :: string
  status :: step_status
  startTime :: jsval
  endTime :: jsval
  error :: jsval
  result :: jsval
  rawCode :: jsval

text \<open>
  The case.  The record is parametric in how the step list is held: by value in the
  executor model, by reference in the store model of the snapshot section.  A pre-supplied
  action sequence is the value received for it, \<open>Undefined\<close> when there is none: the static
  type \<open>ActionSequence\<close> is not checked at run time.
\<close>

record 's gen_case =
  case_id :: string
  name :: string
  userInput :: string
  code :: "string option"
  actionSequence :: jsval
  steps :: 's
  case_status :: case_status
  case_startTime :: "nat option"
  case_endTime :: "nat option"
  case_error :: "string option"

type_synonym test_case = "test_step list gen_case"

text \<open>A thrown value is an \<open>Error\<close> with its message, or anything else.\<close>

datatype thrown = Error string | Thrown jsval

text \<open>\<open>error instanceof Error ? error.message : fallback\<close>\<close>

fun message_or :: "thrown \<Rightarrow> string \<Rightarrow> string" where
  "message_or (Error m) fallback = m"
| "message_or (Thrown v) fallback = fallback"

text \<open>
  The automation backend is external.  A backend operation is a method name with its
  arguments; what it does is an oracle that may depend on every operation invoked before.
\<close>

datatype backend_call = Call string "jsval list"

datatype outcome = Returns jsval | Throws thrown

text \<open>
  Everything outside the engine: the clock behind \<open>Date.now()\<close>, the identifier generator
  \<open>nanoid()\<close>, the JSON5 parser (\<open>Inl\<close> is the message of its syntax error), the backend,
  and whether \<open>page.destroy()\<close> of a given driver completes (\<open>False\<close>: it throws).
  Nothing is assumed about any of them.
\<close>

record env =
  date_now :: "nat \<Rightarrow> nat"
  nanoid :: "nat \<Rightarrow> string"
  JSON5_parse :: "string \<Rightarrow> string + jsval"
  respond :: "backend_call list \<Rightarrow> backend_call \<Rightarrow> outcome"
  page_destroy_ok :: "nat \<Rightarrow> bool"

text \<open>
  The history of the interaction with the environment: how often the clock and the
  identifier generator were read, how many drivers were constructed (a driver is identified
  by its construction number), the backend operations invoked, the drivers whose page was
  destroyed, and the number of \<open>console.error\<close> reports.
\<close>

record world =
  clock_reads :: nat
  ids_drawn :: nat
  drivers_made :: nat
  backend_log :: "backend_call list"
  pages_destroyed :: "nat list"
  console_errors :: nat

definition Date_now :: "env \<Rightarrow> world \<Rightarrow> nat \<times> world" where
  "Date_now e w = (date_now e (clock_reads w), w\<lparr>clock_reads := Suc (clock_reads w)\<rparr>)"

definition draw_id :: "env \<Rightarrow> world \<Rightarrow> string \<times> world" where
  "draw_id e w = (nanoid e (ids_drawn w), w\<lparr>ids_drawn := Suc (ids_drawn w)\<rparr>)"

section \<open>The automation dispatcher (\<^verbatim>\<open>AutomationAgent\<close>)\<close>

record automation_agent =
  agent :: "nat option"
  page :: "nat option"
  isInitialized :: bool

definition new_AutomationAgent :: automation_agent where
  "new_AutomationAgent = \<lparr>agent = None, page = None, isInitialized = False\<rparr>"

text \<open>The two constructors allocate a new driver; they are taken not to throw.\<close>

definition createAgent :: "world \<Rightarrow> automation_agent \<Rightarrow> automation_agent \<times> world" where
  "createAgent w a =
     (let n = drivers_made w
      in (a\<lparr>page := Some n, agent := Some n, isInitialized := True\<rparr>,
          w\<lparr>drivers_made := Suc n\<rparr>))"

definition isReady :: "automation_agent \<Rightarrow> bool" where
  "isReady a = (isInitialized a \<and> agent a \<noteq> None)"

definition AutomationAgent_reset :: "automation_agent \<Rightarrow> automation_agent" where
  "AutomationAgent_reset a = a\<lparr>agent := None, page := None, isInitialized := False\<rparr>"

text \<open>
  \<open>destroy\<close>: \<open>try { if (agent) await agent.page.destroy() } catch { console.error }
  finally { reset() }\<close>.
\<close>

definition AutomationAgent_destroy ::
  "env \<Rightarrow> world \<Rightarrow> automation_agent \<Rightarrow> automation_agent \<times> world" where
  "AutomationAgent_destroy e w a =
     (case agent a of
        None \<Rightarrow> (AutomationAgent_reset a, w)
      | Some n \<Rightarrow>
          (let w1 = w\<lparr>pages_destroyed := pages_destroyed w @ [n]\<rparr>
           in if page_destroy_ok e n then (AutomationAgent_reset a, w1)
              else (AutomationAgent_reset a, w1\<lparr>console_errors := Suc (console_errors w1)\<rparr>)))"

text \<open>A step's property read \<open>step.k\<close> for a key of the action part.\<close>

definition fld :: "test_step \<Rightarrow> string \<Rightarrow> jsval" where
  "fld step k = get k (action step)"

text \<open>
  \<open>buildExecutionOptions\<close>: ten tests of the form
  \<open>if ('k' in step && step.k !== undefined) options.k = step.k\<close>, in this order.
\<close>

definition option_keys :: "string list" where
  "option_keys =
     [''deepThink'', ''xpath'', ''cacheable'', ''autoDismissKeyboard'', ''domIncluded'',
      ''screenshotIncluded'', ''timeoutMs'', ''checkIntervalMs'', ''verifyPrompt'',
      ''retryLimit'']"

fun copy_present :: "string list \<Rightarrow> obj \<Rightarrow> obj \<Rightarrow> obj" where
  "copy_present [] a options = options"
| "copy_present (k # ks) a options =
     copy_present ks a
       (if has_key k a \<and> get k a \<noteq> Undefined then assign k (get k a) options else options)"

definition buildExecutionOptions :: "test_step \<Rightarrow> obj" where
  "buildExecutionOptions step = copy_present option_keys (action step) []"

text \<open>
  String conversion as a template literal performs it (\<open>`${v}`\<close>): decimal digits for a
  number, elements joined by commas for an array (\<open>null\<close> and \<open>undefined\<close> elements give
  the empty string).
\<close>

fun show_nat :: "nat \<Rightarrow> string" where
  "show_nat n =
     (if n < 10 then [''0123456789'' ! n]
      else show_nat (n div 10) @ [''0123456789'' ! (n mod 10)])"

fun join :: "string \<Rightarrow> string list \<Rightarrow> string" where
  "join sep [] = []"
| "join sep [x] = x"
| "join sep (x # y # ys) = x @ sep @ join sep (y # ys)"

fun template :: "jsval \<Rightarrow> string" where
  "template Undefined = ''undefined''"
| "template Null = ''null''"
| "template (Bool b) = (if b then ''true'' else ''false'')"
| "template (Num n) = (if n < 0 then ''-'' @ show_nat (nat (- n)) else show_nat (nat n))"
| "template (Str s) = s"
| "template (Arr xs) =
     join '','' (map (\<lambda>x. if x = Undefined \<or> x = Null then [] else template x) xs)"
| "template (Obj kvs) = ''[object Object]''"

text \<open>
  What one case of the \<open>switch\<close> in \<open>executeStep\<close> asks of the backend: an operation whose
  return value becomes the step's result, an operation called for its effect with a fixed
  result (\<open>setAIActionContext\<close>, result \<open>true\<close>), nothing (the case's guard is falsy and the
  result stays \<open>undefined\<close>), or the \<open>default\<close> case, which throws.
\<close>

datatype request =
    Invoke backend_call
  | InvokeThen backend_call jsval
  | NoCall
  | Unsupported jsval

text \<open>
  The option literal shared by the cases \<open>aiQuery\<close>, \<open>aiExtract\<close>, \<open>aiAsk\<close>, \<open>aiBoolean\<close>,
  \<open>aiNumber\<close> and \<open>aiString\<close>:
  \<open>{domIncluded: step.domIncluded ?? false, screenshotIncluded: step.screenshotIncluded ?? true,
  ...options}\<close>.
\<close>

definition extraction_options :: "test_step \<Rightarrow> obj \<Rightarrow> obj" where
  "extraction_options step options =
     spread [(''domIncluded'', nullish_else (fld step ''domIncluded'') (Bool False)),
             (''screenshotIncluded'', nullish_else (fld step ''screenshotIncluded'') (Bool True))]
            options"

definition dispatch_call :: "test_step \<Rightarrow> obj \<Rightarrow> request" where
  "dispatch_call step options =
    (let ty = fld step ''type'' in
     if ty = Str ''ai'' then
       (if truthy (fld step ''prompt'')
        then Invoke (Call ''ai'' [fld step ''prompt'', Obj options]) else NoCall)
     else if ty = Str ''aiAction'' then
       (if truthy (fld step ''prompt'')
        then Invoke (Call ''aiAction''
               [fld step ''prompt'',
                Obj (spread [(''cacheable'', nullish_else (fld step ''cacheable'') (Bool True))]
                       options)])
        else NoCall)
     else if ty = Str ''aiTap'' then
       (if truthy (fld step ''locate'')
        then Invoke (Call ''aiTap'' [fld step ''locate'', Obj options]) else NoCall)
     else if ty = Str ''aiInput'' then
       (if truthy (fld step ''text'') \<and> truthy (fld step ''locate'')
        then Invoke (Call ''aiInput''
               [fld step ''text'', fld step ''locate'',
                Obj (spread [(''autoDismissKeyboard'',
                              nullish_else (fld step ''autoDismissKeyboard'') (Bool True))]
                       options)])
        else NoCall)
     else if ty = Str ''aiHover'' then
       (if truthy (fld step ''locate'')
        then Invoke (Call ''aiHover'' [fld step ''locate'', Obj options]) else NoCall)
     else if ty = Str ''aiKeyboardPress'' then
       (if truthy (fld step ''key'')
        then Invoke (Call ''aiKeyboardPress'' [fld step ''key'', fld step ''locate'', Obj options])
        else NoCall)
     else if ty = Str ''aiScroll'' then
       (if truthy (fld step ''scrollParam'')
        then Invoke (Call ''aiScroll''
               [fld step ''scrollParam'', fld step ''locate'', Obj options])
        else NoCall)
     else if ty = Str ''aiRightClick'' then
       (if truthy (fld step ''locate'')
        then Invoke (Call ''aiRightClick'' [fld step ''locate'', Obj options]) else NoCall)
     else if ty = Str ''aiDoubleClick'' then
       (if truthy (fld step ''locate'')
        then Invoke (Call ''aiTap''
               [Str (''double click on '' @ template (fld step ''locate'')), Obj options])
        else NoCall)
     else if ty = Str ''aiQuery'' then
       (if truthy (fld step ''dataDemand'')
        then Invoke (Call ''aiQuery''
               [fld step ''dataDemand'', Obj (extraction_options step options)])
        else NoCall)
     else if ty = Str ''aiExtract'' then
       (if truthy (fld step ''dataDemand'')
        then Invoke (Call ''aiQuery''
               [fld step ''dataDemand'', Obj (extraction_options step options)])
        else NoCall)
     else if ty = Str ''aiAssert'' then
       (if truthy (fld step ''assertion'')
        then Invoke (Call ''aiAssert''
               [fld step ''assertion'', fld step ''errorMsg'',
                Obj (spread [(''timeoutMs'', or_else (fld step ''timeoutMs'') (Num 15000))]
                       options)])
        else NoCall)
     else if ty = Str ''aiWaitFor'' then
       (if truthy (fld step ''assertion'')
        then Invoke (Call ''aiWaitFor''
               [fld step ''assertion'',
                Obj (spread [(''timeoutMs'', or_else (fld step ''timeoutMs'') (Num 15000)),
                             (''checkIntervalMs'',
                              or_else (fld step ''checkIntervalMs'') (Num 3000))]
                       options)])
        else NoCall)
     else if ty = Str ''aiLocate'' then
       (if truthy (fld step ''locate'')
        then Invoke (Call ''aiLocate'' [fld step ''locate'', Obj options]) else NoCall)
     else if ty = Str ''aiAsk'' then
       (if truthy (fld step ''prompt'')
        then Invoke (Call ''aiAsk'' [fld step ''prompt'', Obj (extraction_options step options)])
        else NoCall)
     else if ty = Str ''aiBoolean'' then
       (if truthy (fld step ''prompt'')
        then Invoke (Call ''aiBoolean''
               [fld step ''prompt'', Obj (extraction_options step options)])
        else NoCall)
     else if ty = Str ''aiNumber'' then
       (if truthy (fld step ''prompt'')
        then Invoke (Call ''aiNumber''
               [fld step ''prompt'', Obj (extraction_options step options)])
        else NoCall)
     else if ty = Str ''aiString'' then
       (if truthy (fld step ''prompt'')
        then Invoke (Call ''aiString''
               [fld step ''prompt'', Obj (extraction_options step options)])
        else NoCall)
     else if ty = Str ''logScreenshot'' then
       Invoke (Call ''logScreenshot''
         [fld step ''title'',
          Obj (spread [(''title'', fld step ''title''), (''content'', fld step ''content'')]
                 options)])
     else if ty = Str ''runYaml'' then
       (if truthy (fld step ''yamlScriptContent'')
        then Invoke (Call ''runYaml'' [fld step ''yamlScriptContent'']) else NoCall)
     else if ty = Str ''setAIActionContext'' then
       (if truthy (fld step ''actionContext'')
        then InvokeThen (Call ''setAIActionContext'' [fld step ''actionContext'']) (Bool True)
        else NoCall)
     else if ty = Str ''evaluateJavaScript'' then
       (if truthy (fld step ''script'')
        then Invoke (Call ''evaluateJavaScript'' [fld step ''script'']) else NoCall)
     else if ty = Str ''describeElementAtPoint'' then
       (if fld step ''x'' \<noteq> Undefined \<and> fld step ''y'' \<noteq> Undefined
        then Invoke (Call ''describeElementAtPoint''
               [Arr [fld step ''x'', fld step ''y''],
                Obj (spread [(''verifyPrompt'', fld step ''verifyPrompt''),
                             (''retryLimit'', fld step ''retryLimit''),
                             (''deepThink'', fld step ''deepThink'')]
                       options)])
        else NoCall)
     else Unsupported ty)"

text \<open>Carrying a request out against the backend; the operation is logged.\<close>

definition perform :: "env \<Rightarrow> world \<Rightarrow> request \<Rightarrow> outcome \<times> world" where
  "perform e w req =
     (case req of
        Invoke c \<Rightarrow> (respond e (backend_log w) c, w\<lparr>backend_log := backend_log w @ [c]\<rparr>)
      | InvokeThen c r \<Rightarrow>
          (case respond e (backend_log w) c of
             Throws t \<Rightarrow> (Throws t, w\<lparr>backend_log := backend_log w @ [c]\<rparr>)
           | Returns x \<Rightarrow> (Returns r, w\<lparr>backend_log := backend_log w @ [c]\<rparr>))
      | NoCall \<Rightarrow> (Returns Undefined, w)
      | Unsupported ty \<Rightarrow> (Throws (Error (''Unsupported step type: '' @ template ty)), w))"

text \<open>The body of the \<open>try\<close> block up to the end of the \<open>switch\<close>.\<close>

definition dispatch :: "env \<Rightarrow> world \<Rightarrow> test_step \<Rightarrow> outcome \<times> world" where
  "dispatch e w step = perform e w (dispatch_call step (buildExecutionOptions step))"

text \<open>
  The pieces of \<open>executeStep\<close>.  \<open>step.status ||= 'running'\<close> never assigns, every status
  being a non-empty string; \<open>step.startTime ||= Date.now()\<close> reads the clock when the start
  time is falsy.  The \<open>try\<close> block ends by stamping status, end time and result,
  the \<open>catch\<close> block by stamping status, end time and error.
\<close>

definition stamp_start :: "env \<Rightarrow> world \<Rightarrow> test_step \<Rightarrow> test_step \<times> world" where
  "stamp_start e w step =
     (if truthy (startTime step) then (step, w)
      else (let (t, w') = Date_now e w in (step\<lparr>startTime := Num (int t)\<rparr>, w')))"

definition settle :: "test_step \<Rightarrow> outcome \<Rightarrow> nat \<Rightarrow> test_step" where
  "settle step out t =
     (case out of
        Returns r \<Rightarrow> step\<lparr>status := Success, endTime := Num (int t), result := r\<rparr>
      | Throws err \<Rightarrow>
          step\<lparr>status := Failed, endTime := Num (int t),
                error := Str (message_or err ''Unknown error when executing step'')\<rparr>)"

text \<open>
  \<open>executeStep\<close>: destroy the driver held, create a new one, dispatch inside
  \<open>try/catch\<close>, and destroy the driver in \<open>finally\<close>.  The result is \<open>Inl\<close> when the method
  throws and \<open>Inr\<close> when it returns the step.
\<close>

definition executeStep ::
  "env \<Rightarrow> world \<Rightarrow> automation_agent \<Rightarrow> test_step
     \<Rightarrow> (thrown + test_step) \<times> automation_agent \<times> world" where
  "executeStep e w a step =
     (let (a1, w1) = AutomationAgent_destroy e w a;
          (a2, w2) = createAgent w1 a1
      in case agent a2 of
           None \<Rightarrow> (Inl (Error ''Agent not initialized''), a2, w2)
         | Some driver \<Rightarrow>
             (let (step1, w3) = stamp_start e w2 step;
                  (out, w4) = dispatch e w3 step1;
                  (t, w5) = Date_now e w4;
                  step2 = settle step1 out t;
                  (a3, w6) = AutomationAgent_destroy e w5 a2
              in (Inr step2, a3, w6)))"

subsection \<open>Reading values that no schema has checked\<close>

text \<open>
  A pre-supplied action sequence reaches the dispatcher as it was received, so the reads
  performed on it are defined on every value.  A property read on \<open>undefined\<close> or \<open>null\<close>,
  the operator \<open>in\<close> applied to a primitive and \<open>Object.keys(null)\<close> throw a \<open>TypeError\<close>,
  which is an \<open>Error\<close>; the text of its message belongs to the JavaScript engine and is
  represented by one fixed string.
\<close>

definition TypeError :: thrown where
  "TypeError = Error ''TypeError''"

text \<open>
  The own enumerable properties of a value, which is what the spread \<open>{...v}\<close> copies: the
  properties of an object, the elements of an array and the characters of a string under
  their indices, nothing for another primitive.
\<close>

definition indexed :: "jsval list \<Rightarrow> obj" where
  "indexed xs = zip (map show_nat [0..<length xs]) xs"

fun own_props :: "jsval \<Rightarrow> obj" where
  "own_props (Obj kvs) = kvs"
| "own_props (Arr xs) = indexed xs"
| "own_props (Str s) = indexed (map (\<lambda>c. Str [c]) s)"
| "own_props v = []"

text \<open>
  The property read \<open>v.k\<close> for a data property (no method is read through it), and the
  element read \<open>v[i]\<close> at a number.
\<close>

fun read_prop :: "jsval \<Rightarrow> string \<Rightarrow> thrown + jsval" where
  "read_prop Undefined k = Inl TypeError"
| "read_prop Null k = Inl TypeError"
| "read_prop (Obj kvs) k = Inr (get k kvs)"
| "read_prop (Arr xs) k =
     Inr (if k = ''length'' then Num (int (length xs)) else get k (indexed xs))"
| "read_prop (Str s) k =
     Inr (if k = ''length'' then Num (int (length s)) else get k (own_props (Str s)))"
| "read_prop v k = Inr Undefined"

fun at_index :: "jsval \<Rightarrow> nat \<Rightarrow> thrown + jsval" where
  "at_index Undefined i = Inl TypeError"
| "at_index Null i = Inl TypeError"
| "at_index (Arr xs) i = Inr (if i < length xs then xs ! i else Undefined)"
| "at_index (Str s) i = Inr (if i < length s then Str [s ! i] else Undefined)"
| "at_index (Obj kvs) i = Inr (get (show_nat i) kvs)"
| "at_index v i = Inr Undefined"

text \<open>\<open>v?.k\<close>: \<open>undefined\<close> where \<open>v.k\<close> would throw.\<close>

definition optional_prop :: "jsval \<Rightarrow> string \<Rightarrow> jsval" where
  "optional_prop v k = (case read_prop v k of Inl err \<Rightarrow> Undefined | Inr x \<Rightarrow> x)"

subsection \<open>The description of an action (\<^verbatim>\<open>generateDescription\<close>)\<close>

text \<open>
  The three feature tests and the text they produce.  \<open>features.join(', ')\<close> joins
  strings.
\<close>

definition features :: "obj \<Rightarrow> string list" where
  "features a =
     (if has_key ''deepThink'' a \<and> truthy (get ''deepThink'' a) then [''deep think''] else [])
     @ (if has_key ''cacheable'' a \<and> get ''cacheable'' a = Bool False then [''no cache''] else [])
     @ (if has_key ''xpath'' a \<and> truthy (get ''xpath'' a) then [''xpath override''] else [])"

definition featureText :: "obj \<Rightarrow> string" where
  "featureText a =
     (if features a \<noteq> [] then '' ('' @ join '', '' (features a) @ '')'' else [])"

text \<open>\<open>'k' in action ? action.k : d\<close>, and the double quote of the templates.\<close>

definition in_or :: "string \<Rightarrow> obj \<Rightarrow> jsval \<Rightarrow> jsval" where
  "in_or k a d = (if has_key k a then get k a else d)"

definition dq :: string where
  "dq = [CHR 0x22]"

text \<open>
  \<open>(typeof d === 'object' ? Object.keys(d) : [d]).join(', ')\<close>.  \<open>typeof\<close> is \<open>'object'\<close> for
  \<open>null\<close>, for an array and for an object; \<open>Object.keys(null)\<close> throws; \<open>join\<close> turns an
  \<open>undefined\<close> element into the empty string.
\<close>

definition demand_keys :: "jsval \<Rightarrow> thrown + string" where
  "demand_keys d =
     (case d of
        Null \<Rightarrow> Inl TypeError
      | Obj kvs \<Rightarrow> Inr (join '', '' (map fst kvs))
      | Arr xs \<Rightarrow> Inr (join '', '' (map fst (indexed xs)))
      | Undefined \<Rightarrow> Inr []
      | v \<Rightarrow> Inr (template v))"

text \<open>
  The body of \<open>generateDescription\<close> once the action is known to have properties; \<open>a\<close>
  holds them.  The \<open>switch\<close> compares \<open>action.type\<close> with \<open>===\<close>.
\<close>

definition describe :: "obj \<Rightarrow> thrown + string" where
  "describe a =
     (let ft = featureText a; ty = get ''type'' a in
      if ty = Str ''ai'' then Inr (''AI auto-plan: '' @ template (get ''prompt'' a) @ ft)
      else if ty = Str ''aiAction'' then Inr (''AI action: '' @ template (get ''prompt'' a) @ ft)
      else if ty = Str ''aiTap'' then Inr (''AI tap: '' @ template (get ''locate'' a) @ ft)
      else if ty = Str ''aiInput'' then
        Inr (''AI input '' @ dq @ template (get ''text'' a) @ dq @ '' to '' @ dq
             @ template (get ''locate'' a) @ dq @ ft)
      else if ty = Str ''aiHover'' then Inr (''AI hover: '' @ template (get ''locate'' a) @ ft)
      else if ty = Str ''aiKeyboardPress'' then
        (let keyName = in_or ''key'' a (Str ''unknown'');
             keyTarget = (if has_key ''locate'' a \<and> truthy (get ''locate'' a)
                          then '' on '' @ dq @ template (get ''locate'' a) @ dq else [])
         in Inr (''AI keyboard press '' @ dq @ template keyName @ dq @ keyTarget @ ft))
      else if ty = Str ''aiScroll'' then
        (let scrollParam = get ''scrollParam'' a;
             scrollInfo = (if has_key ''scrollParam'' a
                              \<and> truthy (optional_prop scrollParam ''distance'')
                           then '' '' @ template (optional_prop scrollParam ''distance'') @ ''px''
                           else []);
             scrollDirection =
               or_else (if has_key ''scrollParam'' a
                        then optional_prop scrollParam ''direction'' else Bool False)
                       (Str ''unknown'')
         in Inr (''AI scroll '' @ template scrollDirection @ scrollInfo @ ft))
      else if ty = Str ''aiRightClick'' then
        Inr (''AI right click: '' @ template (in_or ''locate'' a (Str ''unknown'')) @ ft)
      else if ty = Str ''aiDoubleClick'' then
        Inr (''AI double click: '' @ template (in_or ''locate'' a (Str ''unknown'')) @ ft)
      else if ty = Str ''aiQuery'' then
        (case demand_keys (in_or ''dataDemand'' a (Str [])) of
           Inl err \<Rightarrow> Inl err
         | Inr keys \<Rightarrow> Inr (''AI query: '' @ keys @ ft))
      else if ty = Str ''aiExtract'' then
        (case demand_keys (in_or ''dataDemand'' a (Str [])) of
           Inl err \<Rightarrow> Inl err
         | Inr keys \<Rightarrow> Inr (''AI extract: '' @ keys @ ft))
      else if ty = Str ''aiAssert'' then
        Inr (''AI assert: '' @ template (in_or ''assertion'' a (Str ''unknown'')) @ ft)
      else if ty = Str ''aiWaitFor'' then
        (let timeoutInfo = (if has_key ''timeoutMs'' a \<and> truthy (get ''timeoutMs'' a)
                            then '' (timeout: '' @ template (get ''timeoutMs'' a) @ ''ms)''
                            else [])
         in Inr (''AI wait for: '' @ template (in_or ''assertion'' a (Str ''unknown''))
                 @ timeoutInfo @ ft))
      else if ty = Str ''aiLocate'' then
        Inr (''AI locate: '' @ template (in_or ''locate'' a (Str ''unknown'')) @ ft)
      else if ty = Str ''aiAsk'' then
        Inr (''AI ask: '' @ template (in_or ''prompt'' a (Str ''unknown'')) @ ft)
      else if ty = Str ''aiBoolean'' then
        Inr (''AI boolean: '' @ template (in_or ''prompt'' a (Str ''unknown'')) @ ft)
      else if ty = Str ''aiNumber'' then
        Inr (''AI number: '' @ template (in_or ''prompt'' a (Str ''unknown'')) @ ft)
      else if ty = Str ''aiString'' then
        Inr (''AI string: '' @ template (in_or ''prompt'' a (Str ''unknown'')) @ ft)
      else if ty = Str ''logScreenshot'' then
        Inr (''Log screenshot: ''
             @ template (or_else (in_or ''title'' a (Str ''screenshot'')) (Str ''screenshot''))
             @ ft)
      else if ty = Str ''runYaml'' then Inr (''Run YAML script'' @ ft)
      else if ty = Str ''setAIActionContext'' then
        Inr (''Set AI action context: ''
             @ template (in_or ''actionContext'' a (Str ''unknown'')) @ ft)
      else if ty = Str ''evaluateJavaScript'' then Inr (''Evaluate JavaScript'' @ ft)
      else if ty = Str ''describeElementAtPoint'' then
        (let coords = (if has_key ''x'' a \<and> has_key ''y'' a \<and> get ''x'' a \<noteq> Undefined
                          \<and> get ''y'' a \<noteq> Undefined
                       then ''('' @ template (get ''x'' a) @ '', '' @ template (get ''y'' a) @ '')''
                       else ''unknown'')
         in Inr (''Describe element at point: '' @ coords @ ft))
      else Inr (''Unknown action: '' @ template ty))"

text \<open>
  \<open>generateDescription\<close>.  Its first statement evaluates \<open>'deepThink' in action\<close>, which
  throws unless the action is an object or an array; none of the keys it reads is an index
  or \<open>length\<close>, so an array is read through its indexed elements.
\<close>

definition generateDescription :: "jsval \<Rightarrow> thrown + string" where
  "generateDescription action_value =
     (case action_value of
        Obj kvs \<Rightarrow> describe kvs
      | Arr xs \<Rightarrow> describe (indexed xs)
      | v \<Rightarrow> Inl TypeError)"

subsection \<open>From actions to steps\<close>

text \<open>
  The object literal of the \<open>map\<close> callback, which \<open>parseTestCode\<close> and
  \<open>parseTestActionSequence\<close> share word for word:
  \<open>{...action, id: nanoid(), description: this.generateDescription(action),
  status: 'pending', rawCode: sequence.display.code[index]}\<close>.  Its parts are evaluated in
  this order, and either of the last two may throw.  The keys \<open>startTime\<close>, \<open>endTime\<close>,
  \<open>error\<close> and \<open>result\<close> are not written, so the step has them as the action does.
\<close>

definition rawCode_at :: "jsval \<Rightarrow> nat \<Rightarrow> thrown + jsval" where
  "rawCode_at sq i =
     (case read_prop sq ''display'' of
        Inl err \<Rightarrow> Inl err
      | Inr display \<Rightarrow>
          (case read_prop display ''code'' of
             Inl err \<Rightarrow> Inl err
           | Inr codes \<Rightarrow> at_index codes i))"

definition new_step :: "jsval \<Rightarrow> string \<Rightarrow> string \<Rightarrow> jsval \<Rightarrow> test_step" where
  "new_step a sid d rc =
     \<lparr>action = own_props a, step_id = sid, description = d, status = Pending,
      startTime = get ''startTime'' (own_props a), endTime = get ''endTime'' (own_props a),
      error = get ''error'' (own_props a), result = get ''result'' (own_props a),
      rawCode = rc\<rparr>"

text \<open>
  \<open>Array.prototype.map\<close> over the actions from index \<open>i\<close> on: the callback runs element by
  element, and the first throw ends the whole call.  The identifiers drawn up to there
  stay drawn.
\<close>

fun steps_of ::
  "env \<Rightarrow> world \<Rightarrow> jsval \<Rightarrow> jsval list \<Rightarrow> nat \<Rightarrow> (thrown + test_step list) \<times> world" where
  "steps_of e w sq [] i = (Inr [], w)"
| "steps_of e w sq (a # as) i =
     (let (sid, w1) = draw_id e w
      in case generateDescription a of
           Inl err \<Rightarrow> (Inl err, w1)
         | Inr d \<Rightarrow>
             (case rawCode_at sq i of
                Inl err \<Rightarrow> (Inl err, w1)
              | Inr rc \<Rightarrow>
                  (case steps_of e w1 sq as (Suc i) of
                     (Inl err, w2) \<Rightarrow> (Inl err, w2)
                   | (Inr rest, w2) \<Rightarrow> (Inr (new_step a sid d rc # rest), w2))))"

text \<open>
  \<open>parseTestActionSequence\<close>: \<open>actionSequence.actions.map(...)\<close>.  Nothing is validated.
  Calling \<open>map\<close> on a value that is not an array throws a \<open>TypeError\<close>.
\<close>

definition parseTestActionSequence ::
  "env \<Rightarrow> world \<Rightarrow> jsval \<Rightarrow> (thrown + test_step list) \<times> world" where
  "parseTestActionSequence e w sq =
     (case read_prop sq ''actions'' of
        Inl err \<Rightarrow> (Inl err, w)
      | Inr (Arr as) \<Rightarrow> steps_of e w sq as 0
      | Inr v \<Rightarrow> (Inl TypeError, w))"

text \<open>
  \<open>parseTestCode\<close>: JSON5, then the sequence schema, then the same \<open>map\<close> over the
  validated value; whatever is thrown on the way is rethrown as
  \<open>Error('Failed to parse test code: ' + message)\<close>.
\<close>

definition parseTestCode :: "env \<Rightarrow> world \<Rightarrow> string \<Rightarrow> (thrown + test_step list) \<times> world" where
  "parseTestCode e w src =
     (case JSON5_parse e src of
        Inl msg \<Rightarrow> (Inl (Error (''Failed to parse test code: '' @ msg)), w)
      | Inr rawParsed \<Rightarrow>
          (case zparse ActionSequenceSchema rawParsed of
             Inl issue \<Rightarrow>
               (Inl (Error (''Failed to parse test code: '' @ ZodError_message issue)), w)
           | Inr parsed \<Rightarrow>
               (case parseTestActionSequence e w parsed of
                  (Inl err, w') \<Rightarrow>
                    (Inl (Error (''Failed to parse test code: ''
                                 @ message_or err ''Unknown error when parsing test code'')), w')
                | (Inr sts, w') \<Rightarrow> (Inr sts, w'))))"

text \<open>
  \<open>parseTestCodeOrActionSequence\<close>: \<open>if (actionSequence)\<close> tests the supplied value for
  truthiness, \<open>if (code)\<close> holds when the code is a non-empty string.
\<close>

definition parseTestCodeOrActionSequence ::
  "env \<Rightarrow> world \<Rightarrow> jsval \<Rightarrow> string option \<Rightarrow> (thrown + test_step list) \<times> world" where
  "parseTestCodeOrActionSequence e w sq src =
     (if truthy sq then parseTestActionSequence e w sq
      else
        (case src of
           Some c \<Rightarrow> (if c \<noteq> [] then parseTestCode e w c else (Inr [], w))
         | None \<Rightarrow> (Inr [], w)))"

section \<open>The case orchestrator (\<^verbatim>\<open>TestCaseExecutor\<close>)\<close>

text \<open>
  Subscribers are external.  The executor records every \<open>emit\<close> with the payload as a
  synchronous subscriber sees it at that moment; subscribers are taken not to modify the
  executor's state, and no other caller is interleaved with a running \<open>execute\<close>.
\<close>

datatype event =
    caseStatusChanged test_case
  | stepStarted test_step string
  | stepCompleted test_step string
  | caseParsed test_case
  | caseExecutionFinished test_case

record executor =
  testCase :: test_case
  exec_agent :: automation_agent
  isDestroyed :: bool
  emitted :: "event list"

definition new_TestCaseExecutor ::
  "env \<Rightarrow> world \<Rightarrow> string \<Rightarrow> string \<Rightarrow> string option \<Rightarrow> jsval
     \<Rightarrow> executor \<times> world" where
  "new_TestCaseExecutor e w nm input src sq =
     (let (cid, w1) = draw_id e w
      in (\<lparr>testCase =
             \<lparr>case_id = cid, name = nm, userInput = input, code = src, actionSequence = sq,
              steps = [], case_status = Created, case_startTime = None, case_endTime = None,
              case_error = None\<rparr>,
           exec_agent = new_AutomationAgent, isDestroyed = False, emitted = []\<rparr>, w1))"

definition emit :: "event \<Rightarrow> executor \<Rightarrow> executor" where
  "emit ev ex = ex\<lparr>emitted := emitted ex @ [ev]\<rparr>"

text \<open>The content of the snapshot \<open>{ ...this.testCase }\<close>; its sharing is treated below.\<close>

definition getTestCase :: "executor \<Rightarrow> test_case" where
  "getTestCase ex = testCase ex"

definition getStatus :: "executor \<Rightarrow> case_status" where
  "getStatus ex = case_status (testCase ex)"

definition canExecute :: "executor \<Rightarrow> bool" where
  "canExecute ex = isReady (exec_agent ex)"

definition updateStatus :: "case_status \<Rightarrow> executor \<Rightarrow> executor" where
  "updateStatus st ex =
     (let ex1 = ex\<lparr>testCase := (testCase ex)\<lparr>case_status := st\<rparr>\<rparr>
      in emit (caseStatusChanged (getTestCase ex1)) ex1)"

text \<open>
  \<open>parse\<close>.  The guard \<open>if (!this.agent)\<close> never fires: the field is initialised with a
  new \<open>AutomationAgent\<close> and never reassigned.
\<close>

definition parse :: "env \<Rightarrow> world \<Rightarrow> executor \<Rightarrow> (thrown + unit) \<times> executor \<times> world" where
  "parse e w ex =
     (if isDestroyed ex then (Inr (), ex, w)
      else
        (case parseTestCodeOrActionSequence e w
                (actionSequence (testCase ex)) (code (testCase ex)) of
           (Inr sts, w') \<Rightarrow>
             (let ex1 = ex\<lparr>testCase := (testCase ex)\<lparr>steps := sts\<rparr>\<rparr>
              in (Inr (), emit (caseParsed (getTestCase ex1)) ex1, w'))
         | (Inl err, w') \<Rightarrow>
             (let ex1 = ex\<lparr>testCase := (testCase ex)
                            \<lparr>case_error := Some (message_or err ''Unknown code parsing error'')\<rparr>\<rparr>
              in (Inl err, updateStatus CaseFailed ex1, w'))))"

text \<open>Writing the step at index \<open>i\<close> of the executor's own step list.\<close>

definition set_step :: "nat \<Rightarrow> test_step \<Rightarrow> executor \<Rightarrow> executor" where
  "set_step i step ex =
     ex\<lparr>testCase := (testCase ex)\<lparr>steps := (steps (testCase ex))[i := step]\<rparr>\<rparr>"

text \<open>
  The loop of \<open>executeStepsWithProgress\<close>, from index \<open>i\<close> on.  The dispatcher mutates the
  step object held in the list, so the list shows the returned step.
\<close>

function executeStepsFrom ::
  "env \<Rightarrow> nat \<Rightarrow> executor \<Rightarrow> world \<Rightarrow> (thrown + test_step list) \<times> executor \<times> world" where
  "executeStepsFrom e i ex w =
     (if i < length (steps (testCase ex)) then
        (let step = steps (testCase ex) ! i;
             (t, w1) = Date_now e w;
             step1 = step\<lparr>status := Running, startTime := Num (int t)\<rparr>;
             ex1 = emit (stepStarted step1 (step_id step1)) (set_step i step1 ex);
             (r, a', w2) = executeStep e w1 (exec_agent ex1) step1;
             ex2 = ex1\<lparr>exec_agent := a'\<rparr>
         in case r of
              Inl err \<Rightarrow> (Inl err, ex2, w2)
            | Inr res \<Rightarrow>
                (let ex3 = emit (stepCompleted res (step_id res)) (set_step i res ex2)
                 in if status res = Failed then (Inr (steps (testCase ex3)), ex3, w2)
                    else executeStepsFrom e (Suc i) ex3 w2))
      else (Inr (steps (testCase ex)), ex, w))"
  by pat_completeness auto
termination
  apply (relation "measure (\<lambda>(e, i, ex, w). length (steps (testCase ex)) - i)")
  apply (auto simp: set_step_def emit_def)
  done

declare executeStepsFrom.simps [simp del]

definition executeStepsWithProgress ::
  "env \<Rightarrow> executor \<Rightarrow> world \<Rightarrow> (thrown + test_step list) \<times> executor \<times> world" where
  "executeStepsWithProgress e ex w = executeStepsFrom e 0 ex w"

definition execute :: "env \<Rightarrow> world \<Rightarrow> executor \<Rightarrow> (thrown + test_case) \<times> executor \<times> world" where
  "execute e w ex =
     (let ex1 = updateStatus CaseRunning ex;
          (t0, w1) = Date_now e w;
          ex2 = ex1\<lparr>testCase := (testCase ex1)\<lparr>case_startTime := Some t0\<rparr>\<rparr>
      in case executeStepsWithProgress e ex2 w1 of
           (Inr res, ex3, w2) \<Rightarrow>
             (let success = list_all (\<lambda>step. status step = Success) res;
                  ex4 = ex3\<lparr>testCase := (testCase ex3)
                              \<lparr>case_status := (if success then Completed else CaseFailed)\<rparr>\<rparr>;
                  (t1, w3) = Date_now e w2;
                  ex5 = ex4\<lparr>testCase := (testCase ex4)\<lparr>case_endTime := Some t1\<rparr>\<rparr>;
                  ex6 = updateStatus (case_status (testCase ex5)) ex5
              in (Inr (getTestCase ex6), ex6, w3))
         | (Inl err, ex3, w2) \<Rightarrow> (Inl err, updateStatus CaseFailed ex3, w2))"

definition stop :: "executor \<Rightarrow> executor" where
  "stop ex = (if case_status (testCase ex) = CaseRunning then updateStatus Stopped ex else ex)"

definition reset :: "executor \<Rightarrow> executor" where
  "reset ex =
     (let ex1 = ex\<lparr>testCase := (testCase ex)\<lparr>case_status := Created, steps := []\<rparr>\<rparr>
      in emit (caseStatusChanged (getTestCase ex1)) ex1)"

definition destroy :: "env \<Rightarrow> world \<Rightarrow> executor \<Rightarrow> executor \<times> world" where
  "destroy e w ex =
     (let (a', w') = AutomationAgent_destroy e w (exec_agent ex)
      in (ex\<lparr>isDestroyed := True, exec_agent := a'\<rparr>, w'))"

section \<open>Snapshots and sharing\<close>

text \<open>
  \<open>getTestCase\<close> returns \<open>{ ...this.testCase }\<close>: a new object whose fields are those of
  the executor's case object.  Whether a holder of the snapshot can reach the executor's
  state depends on what the two objects share, so the case object, the step array and the
  step objects are placed in a store and addressed by reference.  A case object holds the
  reference of its step array, a step array the references of its step objects.
\<close>

record store =
  case_objects :: "nat \<Rightarrow> nat gen_case option"
  step_arrays :: "nat \<Rightarrow> nat list option"
  step_objects :: "nat \<Rightarrow> test_step option"
  next_ref :: nat

definition with_steps :: "'a gen_case \<Rightarrow> 'b \<Rightarrow> 'b gen_case" where
  "with_steps c s =
     \<lparr>case_id = case_id c, name = name c, userInput = userInput c, code = code c,
      actionSequence = actionSequence c, steps = s, case_status = case_status c,
      case_startTime = case_startTime c, case_endTime = case_endTime c,
      case_error = case_error c\<rparr>"

text \<open>The case a reference denotes, read through the store.\<close>

definition view :: "store \<Rightarrow> nat \<Rightarrow> test_case option" where
  "view h r =
     (case case_objects h r of
        None \<Rightarrow> None
      | Some c \<Rightarrow>
          (case step_arrays h (steps c) of
             None \<Rightarrow> None
           | Some refs \<Rightarrow>
               if list_all (\<lambda>x. step_objects h x \<noteq> None) refs
               then Some (with_steps c (map (\<lambda>x. the (step_objects h x)) refs))
               else None))"

text \<open>
  The spread copies every own field of the case object at \<open>this\<close> into a newly allocated
  object; the field \<open>steps\<close> is copied as the reference it is.
\<close>

definition getTestCase_ref :: "store \<Rightarrow> nat \<Rightarrow> (nat \<times> store) option" where
  "getTestCase_ref h this =
     (case case_objects h this of
        None \<Rightarrow> None
      | Some c \<Rightarrow>
          Some (next_ref h,
                h\<lparr>case_objects := (case_objects h)(next_ref h \<mapsto> c),
                  next_ref := Suc (next_ref h)\<rparr>))"

text \<open>
  What the holder of a case reference can do with it: assign a field of the object
  (\<open>snapshot.status = \<dots>\<close>, \<open>snapshot.steps = \<dots>\<close>), and reach a step object through
  the step array and assign one of its fields (\<open>snapshot.steps[i].status = \<dots>\<close>).
\<close>

definition assign_case_field :: "nat \<Rightarrow> (nat gen_case \<Rightarrow> nat gen_case) \<Rightarrow> store \<Rightarrow> store" where
  "assign_case_field r f h =
     (case case_objects h r of
        None \<Rightarrow> h
      | Some c \<Rightarrow> h\<lparr>case_objects := (case_objects h)(r \<mapsto> f c)\<rparr>)"

definition step_ref :: "store \<Rightarrow> nat \<Rightarrow> nat \<Rightarrow> nat option" where
  "step_ref h r i =
     (case case_objects h r of
        None \<Rightarrow> None
      | Some c \<Rightarrow>
          (case step_arrays h (steps c) of
             None \<Rightarrow> None
           | Some refs \<Rightarrow> if i < length refs then Some (refs ! i) else None))"

definition assign_step_field :: "nat \<Rightarrow> nat \<Rightarrow> (test_step \<Rightarrow> test_step) \<Rightarrow> store \<Rightarrow> store" where
  "assign_step_field r i f h =
     (case step_ref h r i of
        None \<Rightarrow> h
      | Some x \<Rightarrow>
          (case step_objects h x of
             None \<Rightarrow> h
           | Some step \<Rightarrow> h\<lparr>step_objects := (step_objects h)(x \<mapsto> f step)\<rparr>))"

section \<open>Notions used in the statements\<close>

text \<open>
  The steps a run has dispatched are the payloads of its \<open>stepCompleted\<close> events: the
  loop emits one, carrying the returned step, after every call of \<open>executeStep\<close> that
  returns.
\<close>

fun completed_steps :: "event list \<Rightarrow> test_step list" where
  "completed_steps [] = []"
| "completed_steps (stepCompleted s sid # evs) = s # completed_steps evs"
| "completed_steps (ev # evs) = completed_steps evs"

text \<open>The executor after one iteration of the loop, and before and after the loop.\<close>

definition after_step :: "nat \<Rightarrow> test_step \<Rightarrow> test_step \<Rightarrow> automation_agent \<Rightarrow> executor \<Rightarrow> executor" where
  "after_step i step1 step' a' ex =
     emit (stepCompleted step' (step_id step'))
       (set_step i step'
          ((emit (stepStarted step1 (step_id step1)) (set_step i step1 ex))\<lparr>exec_agent := a'\<rparr>))"

definition started :: "env \<Rightarrow> world \<Rightarrow> executor \<Rightarrow> executor" where
  "started e w ex =
     (updateStatus CaseRunning ex)
       \<lparr>testCase := (testCase (updateStatus CaseRunning ex))
                       \<lparr>case_startTime := Some (date_now e (clock_reads w))\<rparr>\<rparr>"

definition finished :: "env \<Rightarrow> world \<Rightarrow> test_step list \<Rightarrow> executor \<Rightarrow> executor" where
  "finished e w res ex =
     updateStatus (if list_all (\<lambda>step. status step = Success) res then Completed else CaseFailed)
       (ex\<lparr>testCase := (testCase ex)
              \<lparr>case_status := (if list_all (\<lambda>step. status step = Success) res
                               then Completed else CaseFailed),
               case_endTime := Some (date_now e (clock_reads w))\<rparr>\<rparr>)"

text \<open>What the loop started at index \<open>i\<close> establishes when it stops before index \<open>q\<close>.\<close>

definition loop_post ::
  "nat \<Rightarrow> nat \<Rightarrow> executor \<Rightarrow> world \<Rightarrow> (thrown + test_step list) \<Rightarrow> executor \<Rightarrow> world \<Rightarrow> event list \<Rightarrow> bool" where
  "loop_post i q ex w r ex' w' evs =
    (let old = steps (testCase ex); new = steps (testCase ex') in
     i \<le> q \<and> q \<le> length old \<and>
     r = Inr new \<and>
     length new = length old \<and>
     testCase ex' = (testCase ex)\<lparr>steps := new\<rparr> \<and>
     isDestroyed ex' = isDestroyed ex \<and>
     (\<forall>j<i. new ! j = old ! j) \<and>
     (\<forall>j. q \<le> j \<and> j < length old \<longrightarrow> new ! j = old ! j) \<and>
     (\<forall>j. i \<le> j \<and> Suc j < q \<longrightarrow> status (new ! j) = Success) \<and>
     (i < q \<longrightarrow> status (new ! (q - 1)) = Success \<or> status (new ! (q - 1)) = Failed) \<and>
     (q < length old \<longrightarrow> i < q \<and> status (new ! (q - 1)) = Failed) \<and>
     emitted ex' = emitted ex @ evs \<and>
     completed_steps evs = map (\<lambda>j. new ! j) [i..<q] \<and>
     drivers_made w' = drivers_made w + (q - i))"

definition execute_post ::
  "env \<Rightarrow> nat \<Rightarrow> executor \<Rightarrow> world \<Rightarrow> (thrown + test_case) \<Rightarrow> executor \<Rightarrow> world \<Rightarrow> event list \<Rightarrow> bool" where
  "execute_post e q ex w r ex' w' evs =
    (let old = steps (testCase ex); new = steps (testCase ex') in
     q \<le> length old \<and>
     r = Inr (testCase ex') \<and>
     length new = length old \<and>
     (\<forall>j. q \<le> j \<and> j < length old \<longrightarrow> new ! j = old ! j) \<and>
     (\<forall>j. Suc j < q \<longrightarrow> status (new ! j) = Success) \<and>
     (0 < q \<longrightarrow> status (new ! (q - 1)) = Success \<or> status (new ! (q - 1)) = Failed) \<and>
     (q < length old \<longrightarrow> 0 < q \<and> status (new ! (q - 1)) = Failed) \<and>
     completed_steps evs = take q new \<and>
     emitted ex' =
       emitted ex @ [caseStatusChanged ((testCase ex)\<lparr>case_status := CaseRunning\<rparr>)] @ evs
         @ [caseStatusChanged (testCase ex')] \<and>
     drivers_made w' = drivers_made w + q \<and>
     testCase ex' = (testCase ex)
        \<lparr>steps := new,
         case_status := (if list_all (\<lambda>s. status s = Success) new then Completed else CaseFailed),
         case_startTime := Some (date_now e (clock_reads w)),
         case_endTime := case_endTime (testCase ex')\<rparr> \<and>
     case_endTime (testCase ex') \<noteq> None)"

text \<open>
  Acceptance by a schema; \<open>validateAction\<close> reports it as \<open>isValid\<close>.  The tags of the
  action union and the shape the union selects for a tag.
\<close>

definition accepts :: "schema \<Rightarrow> jsval \<Rightarrow> bool" where
  "accepts s v = (case zparse s v of Inr parsed \<Rightarrow> True | Inl issue \<Rightarrow> False)"

definition action_tags :: "string list" where
  "action_tags = List.map_filter (discriminator_of ''type'') AIActionOptions"

definition action_shape :: "string \<Rightarrow> (string \<times> schema) list option" where
  "action_shape tag =
     (case filter (\<lambda>opt. discriminator_of ''type'' opt = Some tag) AIActionOptions of
        [] \<Rightarrow> None
      | opt # rest \<Rightarrow> Some (shape opt))"

text \<open>
  The options argument of a backend operation: the last argument of every operation except
  \<open>runYaml\<close> and \<open>evaluateJavaScript\<close>, which take none.
\<close>

definition forwarded_options :: "request \<Rightarrow> obj option" where
  "forwarded_options req =
     (case req of
        Invoke (Call m args) \<Rightarrow>
          if m \<in> set [''runYaml'', ''evaluateJavaScript''] then None
          else (case rev args of Obj opts # rest \<Rightarrow> Some opts | _ \<Rightarrow> None)
      | _ \<Rightarrow> None)"

text \<open>
  The defaults written into the cases of the \<open>switch\<close> of \<open>executeStep\<close>, as a table from
  tag and option key: \<open>cacheable ?? true\<close> for \<open>aiAction\<close>, \<open>autoDismissKeyboard ?? true\<close>
  for \<open>aiInput\<close>, \<open>domIncluded ?? false\<close> and \<open>screenshotIncluded ?? true\<close> for the six
  extraction tags, \<open>timeoutMs || 15000\<close> for \<open>aiAssert\<close> and \<open>aiWaitFor\<close>,
  \<open>checkIntervalMs || 3000\<close> for \<open>aiWaitFor\<close>.
\<close>

definition extraction_tags :: "string list" where
  "extraction_tags = [''aiQuery'', ''aiExtract'', ''aiAsk'', ''aiBoolean'', ''aiNumber'', ''aiString'']"

definition dispatcher_default :: "jsval \<Rightarrow> string \<Rightarrow> jsval" where
  "dispatcher_default ty k =
     (if ty = Str ''aiAction'' \<and> k = ''cacheable'' then Bool True
      else if ty = Str ''aiInput'' \<and> k = ''autoDismissKeyboard'' then Bool True
      else if ty \<in> Str ` set extraction_tags \<and> k = ''domIncluded'' then Bool False
      else if ty \<in> Str ` set extraction_tags \<and> k = ''screenshotIncluded'' then Bool True
      else if (ty = Str ''aiAssert'' \<or> ty = Str ''aiWaitFor'') \<and> k = ''timeoutMs'' then Num 15000
      else if ty = Str ''aiWaitFor'' \<and> k = ''checkIntervalMs'' then Num 3000
      else Undefined)"

text \<open>
  The keys a case of the \<open>switch\<close> writes into the options whatever the step holds, as a
  table from the tag: the keys that have a default, \<open>title\<close> and \<open>content\<close> for
  \<open>logScreenshot\<close>, and \<open>verifyPrompt\<close>, \<open>retryLimit\<close> and \<open>deepThink\<close> for
  \<open>describeElementAtPoint\<close>, which are written with the step's own value and so hold
  \<open>undefined\<close> when the step lacks them.
\<close>

definition always_passed :: "jsval \<Rightarrow> string list" where
  "always_passed ty =
     (if ty = Str ''aiAction'' then [''cacheable'']
      else if ty = Str ''aiInput'' then [''autoDismissKeyboard'']
      else if ty \<in> Str ` set extraction_tags then [''domIncluded'', ''screenshotIncluded'']
      else if ty = Str ''aiAssert'' then [''timeoutMs'']
      else if ty = Str ''aiWaitFor'' then [''timeoutMs'', ''checkIntervalMs'']
      else if ty = Str ''logScreenshot'' then [''title'', ''content'']
      else if ty = Str ''describeElementAtPoint'' then [''verifyPrompt'', ''retryLimit'', ''deepThink'']
      else [])"

text \<open>The object literal over which a case of the \<open>switch\<close> spreads the extracted options.\<close>

definition option_literal :: "test_step \<Rightarrow> obj" where
  "option_literal step =
     (let ty = fld step ''type'' in
      if ty = Str ''aiAction'' then
        [(''cacheable'', nullish_else (fld step ''cacheable'') (Bool True))]
      else if ty = Str ''aiInput'' then
        [(''autoDismissKeyboard'', nullish_else (fld step ''autoDismissKeyboard'') (Bool True))]
      else if ty \<in> Str ` set extraction_tags then
        [(''domIncluded'', nullish_else (fld step ''domIncluded'') (Bool False)),
         (''screenshotIncluded'', nullish_else (fld step ''screenshotIncluded'') (Bool True))]
      else if ty = Str ''aiAssert'' then
        [(''timeoutMs'', or_else (fld step ''timeoutMs'') (Num 15000))]
      else if ty = Str ''aiWaitFor'' then
        [(''timeoutMs'', or_else (fld step ''timeoutMs'') (Num 15000)),
         (''checkIntervalMs'', or_else (fld step ''checkIntervalMs'') (Num 3000))]
      else if ty = Str ''logScreenshot'' then
        [(''title'', fld step ''title''), (''content'', fld step ''content'')]
      else if ty = Str ''describeElementAtPoint'' then
        [(''verifyPrompt'', fld step ''verifyPrompt''), (''retryLimit'', fld step ''retryLimit''),
         (''deepThink'', fld step ''deepThink'')]
      else [])"

text \<open>The executor after a successful and after a failed \<open>parse\<close>.\<close>

definition parsed_ok :: "test_step list \<Rightarrow> executor \<Rightarrow> executor" where
  "parsed_ok sts ex =
     ex\<lparr>testCase := (testCase ex)\<lparr>steps := sts\<rparr>,
        emitted := emitted ex @ [caseParsed ((testCase ex)\<lparr>steps := sts\<rparr>)]\<rparr>"

definition parse_failed :: "thrown \<Rightarrow> executor \<Rightarrow> executor" where
  "parse_failed err ex =
     ex\<lparr>testCase := (testCase ex)
            \<lparr>case_error := Some (message_or err ''Unknown code parsing error''),
             case_status := CaseFailed\<rparr>,
        emitted := emitted ex @
          [caseStatusChanged ((testCase ex)
             \<lparr>case_error := Some (message_or err ''Unknown code parsing error''),
              case_status := CaseFailed\<rparr>)]\<rparr>"

subsection \<open>A concrete environment\<close>

text \<open>
  An environment in which every backend operation returns \<open>null\<close> except \<open>aiAssert\<close>,
  which throws; used to run the definitions on concrete cases.
\<close>

definition demo_env :: env where
  "demo_env =
     \<lparr>date_now = (\<lambda>n. 1000 + n),
      nanoid = (\<lambda>n. ''id'' @ show_nat n),
      JSON5_parse = (\<lambda>s. Inl ''JSON5: invalid character''),
      respond = (\<lambda>log c. case c of Call m args \<Rightarrow>
                   if m = ''aiAssert'' then Throws (Error ''Assertion failed'') else Returns Null),
      page_destroy_ok = (\<lambda>n. True)\<rparr>"

definition demo_world :: world where
  "demo_world =
     \<lparr>clock_reads = 0, ids_drawn = 0, drivers_made = 0, backend_log = [],
      pages_destroyed = [], console_errors = 0\<rparr>"

definition pending_step :: "string \<Rightarrow> obj \<Rightarrow> test_step" where
  "pending_step sid a =
     \<lparr>action = a, step_id = sid, description = [], status = Pending,
      startTime = Undefined, endTime = Undefined, error = Undefined, result = Undefined,
      rawCode = Undefined\<rparr>"

definition tap_action :: obj where
  "tap_action = [(''type'', Str ''aiTap''), (''locate'', Str ''login button'')]"

definition assert_action :: obj where
  "assert_action = [(''type'', Str ''aiAssert''), (''assertion'', Str ''dashboard is visible'')]"

definition demo_executor :: "test_step list \<Rightarrow> executor" where
  "demo_executor sts =
     \<lparr>testCase =
        \<lparr>case_id = ''case'', name = ''Automated Test Case'', userInput = ''log in'',
         code = None, actionSequence = Undefined, steps = sts, case_status = Created,
         case_startTime = None, case_endTime = None, case_error = None\<rparr>,
      exec_agent = new_AutomationAgent, isDestroyed = False, emitted = []\<rparr>"

definition three_steps :: "test_step list" where
  "three_steps = [pending_step ''s1'' tap_action, pending_step ''s2'' assert_action,
                  pending_step ''s3'' tap_action]"



definition failing_run :: "(thrown + test_case) \<times> executor \<times> world" where
  "failing_run = execute demo_env demo_world (demo_executor three_steps)"


definition running_executor :: executor where
  "running_executor =
     (demo_executor three_steps)
       \<lparr>testCase := (testCase (demo_executor three_steps))\<lparr>case_status := CaseRunning\<rparr>\<rparr>"

definition wait_with_extra :: obj where
  "wait_with_extra =
     [(''type'', Str ''aiWaitFor''), (''assertion'', Str ''spinner is gone''),
      (''timeoutMs'', Num 5000), (''bogus'', Num 1)]"

definition point_action :: obj where
  "point_action = [(''type'', Str ''describeElementAtPoint''), (''x'', Num 10), (''y'', Num 20)]"

definition wait_action :: obj where
  "wait_action =
     [(''type'', Str ''aiWaitFor''), (''assertion'', Str ''spinner is gone''),
      (''timeoutMs'', Num 0)]"

definition mismatched_actions :: "jsval list" where
  "mismatched_actions = [Obj tap_action, Obj assert_action, Obj tap_action]"

definition mismatched_codes :: "jsval list" where
  "mismatched_codes = [Str ''await aiTap(...)'', Str ''await aiAssert(...)'']"

definition sequence_value :: "jsval list \<Rightarrow> jsval list \<Rightarrow> jsval" where
  "sequence_value as cs =
     Obj [(''actions'', Arr as),
          (''display'', Obj [(''code'', Arr cs), (''description'', Str ''log in'')])]"

definition reading_env :: "jsval \<Rightarrow> env" where
  "reading_env v = demo_env\<lparr>JSON5_parse := (\<lambda>src. Inr v)\<rparr>"

definition malformed_sequence :: jsval where
  "malformed_sequence = sequence_value [Obj [(''type'', Str ''aiTap'')]] [Str ''await aiTap()'']"

definition presupplied_executor :: "jsval \<Rightarrow> executor" where
  "presupplied_executor sq =
     (demo_executor [pending_step ''old'' tap_action])
       \<lparr>testCase := (testCase (demo_executor [pending_step ''old'' tap_action]))
                       \<lparr>actionSequence := sq\<rparr>\<rparr>"

definition null_demand_sequence :: jsval where
  "null_demand_sequence =
     sequence_value [Obj tap_action, Obj [(''type'', Str ''aiQuery''), (''dataDemand'', Null)]]
       [Str ''await aiTap(...)'', Str ''await aiQuery(...)'']"

definition valid_sequence :: jsval where
  "valid_sequence =
     sequence_value [Obj wait_with_extra, Obj assert_action]
       [Str ''await aiWaitFor(...)'', Str ''await aiAssert(...)'']"

definition code_executor :: executor where
  "code_executor =
     (demo_executor [pending_step ''old'' tap_action])
       \<lparr>testCase := (testCase (demo_executor [pending_step ''old'' tap_action]))
                       \<lparr>code := Some ''{actions: [{type: aiTap}]''\<rparr>\<rparr>"

text \<open>
  A store holding one case whose step array holds one pending step, the snapshot taken of
  it, and two assignments a holder of a snapshot can make.
\<close>

definition demo_case :: "nat gen_case" where
  "demo_case =
     \<lparr>case_id = ''case'', name = ''Automated Test Case'', userInput = ''log in'',
      code = None, actionSequence = Undefined, steps = 1, case_status = Created,
      case_startTime = None, case_endTime = None, case_error = None\<rparr>"

definition demo_store :: store where
  "demo_store =
     \<lparr>case_objects = (\<lambda>r. if r = 0 then Some demo_case else None),
      step_arrays = (\<lambda>r. if r = 1 then Some [2] else None),
      step_objects = (\<lambda>r. if r = 2 then Some (pending_step ''s1'' tap_action) else None),
      next_ref = 3\<rparr>"

definition demo_snapshot :: "nat \<times> store" where
  "demo_snapshot = the (getTestCase_ref demo_store 0)"

definition skip_step :: "test_step \<Rightarrow> test_step" where
  "skip_step step = step\<lparr>status := Skipped\<rparr>"

definition stop_case :: "nat gen_case \<Rightarrow> nat gen_case" where
  "stop_case c = c\<lparr>case_status := Stopped\<rparr>"

section \<open>Validation of actions and sequences\<close>

lemmas schema_defs = PointSchema_def ScrollDirectionSchema_def ScrollTypeSchema_def DomIncludeOptionSchema_def
  KeyboardKeySchema_def AIActionTypeSchema_def LocateOptionSchema_def AndroidDeviceInputOptSchema_def
  ScrollParamSchema_def InsightExtractOptionSchema_def AgentAssertOptSchema_def AgentWaitForOptSchema_def
  LocatorValidatorOptionSchema_def BaseActionParamsSchema_def AIPlanningParamsSchema_def InteractionParamsSchema_def
  InputParamsSchema_def KeyboardParamsSchema_def ScrollParamsSchema_def QueryParamsSchema_def AssertParamsSchema_def
  WaitForParamsSchema_def DescribeElementParamsSchema_def YamlParamsSchema_def ContextParamsSchema_def
  JavaScriptParamsSchema_def ScreenshotParamsSchema_def AIActionOptions_def
  object_def optional_def

lemma validateAction_accepts: "fst (validateAction a) = accepts AIActionSchema a"
  by (simp add: validateAction_def accepts_def split: sum.splits)

lemma validateActionSequence_accepts:
  "fst (validateActionSequence sq) = accepts ActionSequenceSchema sq"
  by (simp add: validateActionSequence_def accepts_def split: sum.splits)

lemma accepts_isl: "accepts s v = (\<not> isl (zparse s v))"
  by (simp add: accepts_def split: sum.splits)

lemma keyed_isl: "isl (keyed k r) = isl r"
  by (simp add: keyed_def split: sum.splits)

lemma all_success_ok: "(\<not> isl (all_success rs)) = (\<forall>r\<in>set rs. \<not> isl r)"
  by (induction rs) (auto split: sum.splits)

lemma all_success_keys:
  "all_success (map (\<lambda>ks. keyed (fst ks) (f ks)) shp) = Inr out \<Longrightarrow> map fst out = map fst shp"
  by (induction shp arbitrary: out) (auto simp: keyed_def split: sum.splits)

lemma accepts_object:
  "accepts (ZObject shp uk) (Obj kvs) =
     ((\<forall>ks\<in>set shp. accepts (snd ks) (get (fst ks) kvs)) \<and>
      (uk = Strict \<longrightarrow> set (map fst kvs) \<subseteq> set (map fst shp)))"
proof -
  let ?rs = "map (\<lambda>ks. keyed (fst ks) (zparse (snd ks) (get (fst ks) kvs))) shp"
  have a: "(\<not> isl (all_success ?rs)) = (\<forall>ks\<in>set shp. accepts (snd ks) (get (fst ks) kvs))"
    by (simp add: all_success_ok keyed_isl accepts_isl)
  show ?thesis
    unfolding a[symmetric] by (cases "all_success ?rs") (auto simp: accepts_isl)
qed

lemma accepts_object_any:
  "accepts (ZObject shp uk) v =
     (\<exists>kvs. v = Obj kvs \<and> (\<forall>ks\<in>set shp. accepts (snd ks) (get (fst ks) kvs)) \<and>
        (uk = Strict \<longrightarrow> set (map fst kvs) \<subseteq> set (map fst shp)))"
proof (cases "\<exists>kvs. v = Obj kvs")
  case True
  then show ?thesis using accepts_object by auto
next
  case False
  then have "\<not> accepts (ZObject shp uk) v" by (cases v) (auto simp: accepts_def)
  with False show ?thesis by auto
qed

lemma accepts_array:
  "accepts (ZArray s) v = (\<exists>xs. v = Arr xs \<and> (\<forall>x\<in>set xs. accepts s x))"
proof (cases v)
  case (Arr xs)
  have "(\<not> isl (all_success (map (\<lambda>x. zparse s x) xs))) = (\<forall>x\<in>set xs. accepts s x)"
    by (simp add: all_success_ok accepts_isl)
  then show ?thesis using Arr
    by (cases "all_success (map (\<lambda>x. zparse s x) xs)") (auto simp: accepts_isl)
qed (auto simp: accepts_def)

lemma accepts_string: "accepts ZString v = (\<exists>s. v = Str s)"
  by (cases v) (auto simp: accepts_def)

lemma object_output_keys:
  assumes "zparse (ZObject shp uk) v = Inr p"
  shows "\<exists>kvs out. v = Obj kvs \<and> p = Obj out \<and> set (map fst out) \<subseteq> set (map fst shp)"
proof -
  from assms obtain kvs where v: "v = Obj kvs" by (cases v) auto
  let ?rs = "map (\<lambda>ks. keyed (fst ks) (zparse (snd ks) (get (fst ks) kvs))) shp"
  from assms v obtain out where o: "all_success ?rs = Inr out"
    and p: "p = Obj (filter (\<lambda>ky. snd ky \<noteq> Undefined \<or> has_key (fst ky) kvs) out)"
    by (auto split: sum.splits if_splits)
  have "set (map fst (filter (\<lambda>ky. snd ky \<noteq> Undefined \<or> has_key (fst ky) kvs) out))
      \<subseteq> set (map fst out)" by auto
  also have "map fst out = map fst shp" using all_success_keys[OF o] .
  finally have "set (map fst (filter (\<lambda>ky. snd ky \<noteq> Undefined \<or> has_key (fst ky) kvs) out))
      \<subseteq> set (map fst shp)" .
  with v p show ?thesis by blast
qed

lemma accepts_not_object:
  "\<forall>kvs. v \<noteq> Obj kvs \<Longrightarrow> \<not> accepts (ZDiscriminatedUnion d opts) v"
  by (cases v) (auto simp: accepts_def)

lemma accepts_disc:
  "accepts (ZDiscriminatedUnion d opts) (Obj kvs) =
     (\<exists>tag opt rest. get d kvs = Str tag \<and>
        filter (\<lambda>opt. discriminator_of d opt = Some tag) opts = opt # rest \<and>
        accepts opt (Obj kvs))"
  by (cases "get d kvs") (auto simp: accepts_def split: list.splits)

lemma options_are_objects: "\<forall>opt\<in>set AIActionOptions. \<exists>shp. opt = ZObject shp Strip"
  by (simp add: schema_defs)

lemma action_tags_eval:
  "action_tags =
     [''ai'', ''aiAction'', ''aiTap'', ''aiHover'', ''aiRightClick'', ''aiDoubleClick'',
      ''aiLocate'', ''aiInput'', ''aiKeyboardPress'', ''aiScroll'', ''aiQuery'', ''aiExtract'',
      ''aiAsk'', ''aiBoolean'', ''aiNumber'', ''aiString'', ''aiAssert'', ''aiWaitFor'',
      ''describeElementAtPoint'', ''runYaml'', ''setAIActionContext'', ''evaluateJavaScript'',
      ''logScreenshot'', ''freezePageContext'', ''unfreezePageContext'', ''verifyLocator'']"
  by code_simp

lemma in_action_tags:
  "(tag \<in> set action_tags) = (\<exists>opt\<in>set AIActionOptions. discriminator_of ''type'' opt = Some tag)"
  unfolding action_tags_def List.map_filter_def by force

lemma action_shape_known: "(action_shape tag \<noteq> None) = (tag \<in> set action_tags)"
proof -
  have "(filter (\<lambda>opt. discriminator_of ''type'' opt = Some tag) AIActionOptions \<noteq> []) =
        (tag \<in> set action_tags)"
    by (simp add: in_action_tags filter_empty_conv)
  then show ?thesis by (auto simp: action_shape_def split: list.splits)
qed

lemma accepts_action:
  "accepts AIActionSchema a =
     (\<exists>kvs tag shp. a = Obj kvs \<and> get ''type'' kvs = Str tag \<and> action_shape tag = Some shp \<and>
        (\<forall>ks\<in>set shp. accepts (snd ks) (get (fst ks) kvs)))"
  (is "?L = ?R")
proof (cases "\<exists>kvs. a = Obj kvs")
  case False
  then show ?thesis using accepts_not_object[of a] by (auto simp: AIActionSchema_def)
next
  case True
  then obtain kvs where a: "a = Obj kvs" by blast
  have sel: "accepts opt (Obj kvs) = (\<forall>ks\<in>set (shape opt). accepts (snd ks) (get (fst ks) kvs))"
    if f: "filter (\<lambda>opt. discriminator_of ''type'' opt = Some tag) AIActionOptions = opt # rest"
    for tag opt rest
  proof -
    from f have "opt \<in> set AIActionOptions" by (rule filter_head_member)
    then obtain shp where "opt = ZObject shp Strip" using options_are_objects by blast
    then show ?thesis by (simp add: accepts_object)
  qed
  show ?thesis
  proof
    assume ?L
    then obtain tag opt rest where t: "get ''type'' kvs = Str tag"
      and f: "filter (\<lambda>opt. discriminator_of ''type'' opt = Some tag) AIActionOptions = opt # rest"
      and ok: "accepts opt (Obj kvs)"
      unfolding a AIActionSchema_def accepts_disc by blast
    have "action_shape tag = Some (shape opt)" by (simp add: action_shape_def f)
    moreover have "\<forall>ks\<in>set (shape opt). accepts (snd ks) (get (fst ks) kvs)"
      using sel[OF f] ok by simp
    ultimately show ?R using a t by blast
  next
    assume ?R
    then obtain tag shp where t: "get ''type'' kvs = Str tag"
      and s: "action_shape tag = Some shp"
      and ok: "\<forall>ks\<in>set shp. accepts (snd ks) (get (fst ks) kvs)"
      using a by auto
    from s obtain opt rest where
      f: "filter (\<lambda>opt. discriminator_of ''type'' opt = Some tag) AIActionOptions = opt # rest"
      and sh: "shp = shape opt"
      by (auto simp: action_shape_def split: list.splits)
    have "accepts opt (Obj kvs)" using sel[OF f] ok sh by simp
    then show ?L unfolding a AIActionSchema_def accepts_disc using t f by blast
  qed
qed

lemma action_output:
  assumes "zparse AIActionSchema a = Inr p"
  shows "\<exists>kvs out tag shp. a = Obj kvs \<and> p = Obj out \<and> get ''type'' kvs = Str tag \<and>
           action_shape tag = Some shp \<and> set (map fst out) \<subseteq> set (map fst shp)"
proof -
  from assms obtain kvs where a: "a = Obj kvs" by (cases a) (auto simp: AIActionSchema_def)
  from assms a obtain tag where t: "get ''type'' kvs = Str tag"
    by (cases "get ''type'' kvs") (auto simp: AIActionSchema_def)
  from assms a t obtain opt rest where
    f: "filter (\<lambda>opt. discriminator_of ''type'' opt = Some tag) AIActionOptions = opt # rest"
    and z: "zparse opt (Obj kvs) = Inr p"
    by (auto simp: AIActionSchema_def split: list.splits)
  from f have "opt \<in> set AIActionOptions" by (rule filter_head_member)
  then obtain shp where o: "opt = ZObject shp Strip" using options_are_objects by blast
  from object_output_keys[OF z[unfolded o]] obtain out where
    p: "p = Obj out" and k: "set (map fst out) \<subseteq> set (map fst shp)" by blast
  have "action_shape tag = Some shp" by (simp add: action_shape_def f o)
  with a t p k show ?thesis by blast
qed

text \<open>
  Claim C3, as amended.  Validation accepts a value exactly when it is an object whose
  \<open>type\<close> is one of the tags and every field of the shape selected for that tag accepts
  the value found under its key; so an unknown tag and a missing or mistyped field are
  rejected.  Keys outside the shape play no part in acceptance.  The 26 tags are distinct,
  so a tag selects one shape, and the value returned on acceptance is an object with keys
  of that one shape only.
\<close>

theorem action_validation_closed_per_tag:
  "(fst (validateAction a) \<longleftrightarrow>
      (\<exists>kvs tag shp. a = Obj kvs \<and> get ''type'' kvs = Str tag \<and> action_shape tag = Some shp \<and>
         (\<forall>ks\<in>set shp. accepts (snd ks) (get (fst ks) kvs)))) \<and>
   (\<forall>tag. action_shape tag \<noteq> None \<longleftrightarrow> tag \<in> set action_tags) \<and>
   distinct action_tags \<and> length action_tags = 26 \<and>
   (\<forall>p. zparse AIActionSchema a = Inr p \<longrightarrow>
      (\<exists>kvs out tag shp. a = Obj kvs \<and> p = Obj out \<and> get ''type'' kvs = Str tag \<and>
         action_shape tag = Some shp \<and> set (map fst out) \<subseteq> set (map fst shp)))"
  using accepts_action[of a] action_shape_known action_output[of a]
  by (simp add: validateAction_accepts action_tags_eval)

theorem action_validation_closed_per_tag_witness:
  "\<not> fst (validateAction (Obj [(''type'', Str ''aiTap'')])) \<and>
   \<not> fst (validateAction (Obj [(''type'', Str ''aiClick''), (''locate'', Str ''login button'')])) \<and>
   fst (validateAction (Obj tap_action)) \<and>
   action_shape ''aiTap'' =
     Some [(''type'', ZLiteral ''aiTap''), (''locate'', ZString),
           (''deepThink'', ZOptional ZBoolean), (''cacheable'', ZOptional ZBoolean)]"
proof -
  have s: "action_shape ''aiTap'' =
     Some [(''type'', ZLiteral ''aiTap''), (''locate'', ZString),
           (''deepThink'', ZOptional ZBoolean), (''cacheable'', ZOptional ZBoolean)]"
    by code_simp
  have u: "action_shape ''aiClick'' = None" by code_simp
  have m: "\<not> accepts ZString (get ''locate'' [(''type'', Str ''aiTap'')])" by code_simp
  have ok: "\<forall>ks\<in>set [(''type'', ZLiteral ''aiTap''), (''locate'', ZString),
           (''deepThink'', ZOptional ZBoolean), (''cacheable'', ZOptional ZBoolean)].
        accepts (snd ks) (get (fst ks) tap_action)"
    by code_simp
  have t: "get ''type'' tap_action = Str ''aiTap''" "get ''type'' [(''type'', Str ''aiTap'')] = Str ''aiTap''"
    "get ''type'' [(''type'', Str ''aiClick''), (''locate'', Str ''login button'')] = Str ''aiClick''"
    by (simp_all add: tap_action_def get_def)
  have 1: "\<not> fst (validateAction (Obj [(''type'', Str ''aiTap'')]))"
    using action_validation_closed_per_tag[of "Obj [(''type'', Str ''aiTap'')]"] s m t
    by auto
  have 2: "\<not> fst (validateAction (Obj [(''type'', Str ''aiClick''), (''locate'', Str ''login button'')]))"
    using action_validation_closed_per_tag[of "Obj [(''type'', Str ''aiClick''), (''locate'', Str ''login button'')]"] u t
    by auto
  have 3: "fst (validateAction (Obj tap_action))"
    using action_validation_closed_per_tag[of "Obj tap_action"] s ok t by blast
  show ?thesis using 1 2 3 s by simp
qed

text \<open>
  Claim C3 as stated fails: the wait options \<open>{timeoutMs: 5000, bogus: 1}\<close> carry an
  unexpected field and the wait-option shape rejects them, yet the \<open>aiWaitFor\<close> action
  carrying them is accepted, and the field is dropped from the returned value.
\<close>

theorem extra_option_field_counterexample:
  "\<not> accepts AgentWaitForOptSchema (Obj [(''timeoutMs'', Num 5000), (''bogus'', Num 1)]) \<and>
   validateAction (Obj wait_with_extra) = (True, None) \<and>
   zparse AIActionSchema (Obj wait_with_extra) =
     Inr (Obj [(''type'', Str ''aiWaitFor''), (''assertion'', Str ''spinner is gone''),
               (''timeoutMs'', Num 5000)])"
  by code_simp

text \<open>
  Claim C2, as amended.  A sequence is accepted exactly when it is an object whose
  \<open>actions\<close> is an array of accepted actions and whose \<open>display\<close> is an object with an
  array of strings \<open>code\<close> and a string \<open>description\<close>.  The two lengths are not compared.
\<close>

theorem sequence_validation_ignores_lengths:
  "fst (validateActionSequence sq) \<longleftrightarrow>
     (\<exists>kvs as dkvs cs d. sq = Obj kvs \<and>
        get ''actions'' kvs = Arr as \<and> (\<forall>a\<in>set as. fst (validateAction a)) \<and>
        get ''display'' kvs = Obj dkvs \<and>
        get ''code'' dkvs = Arr cs \<and> (\<forall>c\<in>set cs. \<exists>s. c = Str s) \<and>
        get ''description'' dkvs = Str d)"
  unfolding validateActionSequence_accepts ActionSequenceSchema_def object_def
  by (simp add: accepts_object_any accepts_array accepts_string validateAction_accepts) blast

theorem sequence_validation_ignores_lengths_witness:
  "fst (validateActionSequence (sequence_value mismatched_actions mismatched_codes)) \<and>
   \<not> fst (validateActionSequence (sequence_value [Obj [(''type'', Str ''aiTap'')]] [Str ''await aiTap()'']))"
proof -
  have a: "\<forall>a\<in>set mismatched_actions. fst (validateAction a)" by code_simp
  have c: "\<forall>c\<in>set mismatched_codes. \<exists>s. c = Str s" by (simp add: mismatched_codes_def)
  have 1: "fst (validateActionSequence (sequence_value mismatched_actions mismatched_codes))"
    using sequence_validation_ignores_lengths[of "sequence_value mismatched_actions mismatched_codes"] a c
    by (simp add: sequence_value_def get_def)
  have n: "\<not> fst (validateAction (Obj [(''type'', Str ''aiTap'')]))" by code_simp
  have 2: "\<not> fst (validateActionSequence (sequence_value [Obj [(''type'', Str ''aiTap'')]] [Str ''await aiTap()'']))"
    using sequence_validation_ignores_lengths[of "sequence_value [Obj [(''type'', Str ''aiTap'')]] [Str ''await aiTap()'']"] n
    by (simp add: sequence_value_def get_def)
  show ?thesis using 1 2 by simp
qed

text \<open>
  Claim C2 as stated fails: three actions with two code strings are accepted, and
  \<open>parseTestCode\<close> builds three steps, the last without \<open>rawCode\<close>.
\<close>

theorem mismatched_lengths_counterexample:
  "length mismatched_actions = 3 \<and> length mismatched_codes = 2 \<and>
   validateActionSequence (sequence_value mismatched_actions mismatched_codes) = (True, None) \<and>
   map rawCode (projr (fst (parseTestCode
       (reading_env (sequence_value mismatched_actions mismatched_codes)) demo_world ''source'')))
     = [Str ''await aiTap(...)'', Str ''await aiAssert(...)'', Undefined]"
  by code_simp

section \<open>The forwarded options\<close>

lemma get_simps:
  "get k [] = Undefined"
  "get k ((k', v) # kvs) = (if k = k' then v else get k kvs)"
  by (simp_all add: get_def)

lemma has_key_simps:
  "has_key k [] = False"
  "has_key k ((k', v) # kvs) = (k = k' \<or> has_key k kvs)"
  by (auto simp: has_key_def)

lemma get_assign: "get k (assign k' v kvs) = (if k = k' then v else get k kvs)"
  by (induction k' v kvs rule: assign.induct) (auto simp: get_simps)

lemma has_key_assign: "has_key k (assign k' v kvs) = (k = k' \<or> has_key k kvs)"
  by (induction k' v kvs rule: assign.induct) (auto simp: has_key_simps)

lemma get_defined_has_key: "get k kvs \<noteq> Undefined \<Longrightarrow> has_key k kvs"
  by (induction kvs) (auto simp: get_simps has_key_simps split: if_splits)

lemma get_spread:
  "distinct (map fst kvs) \<Longrightarrow>
     get k (spread base kvs) = (if has_key k kvs then get k kvs else get k base)"
proof (induction kvs arbitrary: base)
  case Nil
  then show ?case by (simp add: has_key_simps)
next
  case (Cons kv kvs)
  obtain k' v' where kv: "kv = (k', v')" by force
  from Cons.prems have d: "distinct (map fst kvs)" and n: "\<not> has_key k' kvs"
    by (simp_all add: kv has_key_def)
  show ?case
    using Cons.IH[OF d, of "assign k' v' base"] n
    by (auto simp: kv get_assign has_key_simps get_simps)
qed

lemma copy_present_get:
  "get k (copy_present ks a opts) =
     (if k \<in> set ks \<and> get k a \<noteq> Undefined then get k a else get k opts)"
  by (induction ks arbitrary: opts) (auto simp: get_assign dest: get_defined_has_key)

lemma copy_present_has_key:
  "has_key k (copy_present ks a opts) = (k \<in> set ks \<and> get k a \<noteq> Undefined \<or> has_key k opts)"
  by (induction ks arbitrary: opts) (auto simp: has_key_assign dest: get_defined_has_key)

lemma keys_assign: "fst ` set (assign k v kvs) = insert k (fst ` set kvs)"
  by (induction k v kvs rule: assign.induct) auto

lemma distinct_assign: "distinct (map fst kvs) \<Longrightarrow> distinct (map fst (assign k v kvs))"
  by (induction k v kvs rule: assign.induct) (auto simp: keys_assign)

lemma copy_present_distinct:
  "distinct (map fst opts) \<Longrightarrow> distinct (map fst (copy_present ks a opts))"
  by (induction ks arbitrary: opts) (auto simp: distinct_assign)

lemma options_get:
  "get k (buildExecutionOptions step) = (if k \<in> set option_keys then fld step k else Undefined)"
  by (simp add: buildExecutionOptions_def copy_present_get fld_def get_simps)

lemma options_has_key:
  "has_key k (buildExecutionOptions step) = (k \<in> set option_keys \<and> fld step k \<noteq> Undefined)"
  by (simp add: buildExecutionOptions_def copy_present_has_key fld_def has_key_simps)

lemma options_distinct: "distinct (map fst (buildExecutionOptions step))"
  by (simp add: buildExecutionOptions_def copy_present_distinct)

lemma has_key_spread: "has_key k (spread base kvs) = (has_key k base \<or> has_key k kvs)"
proof (induction kvs arbitrary: base)
  case Nil
  then show ?case by (simp add: has_key_simps)
next
  case (Cons kv kvs)
  obtain k' v' where kv: "kv = (k', v')" by force
  show ?case using Cons.IH[of "assign k' v' base"]
    by (auto simp: kv has_key_assign has_key_simps)
qed

lemma assign_fresh: "k \<notin> fst ` set kvs \<Longrightarrow> assign k v kvs = kvs @ [(k, v)]"
  by (induction k v kvs rule: assign.induct) auto

lemma spread_distinct:
  "distinct (map fst (base @ kvs)) \<Longrightarrow> spread base kvs = base @ kvs"
proof (induction kvs arbitrary: base)
  case Nil
  then show ?case by simp
next
  case (Cons kv kvs)
  obtain k v where kv: "kv = (k, v)" by force
  from Cons.prems have f: "k \<notin> fst ` set base" by (auto simp: kv)
  from Cons.prems have d: "distinct (map fst ((base @ [(k, v)]) @ kvs))" by (auto simp: kv)
  show ?case using Cons.IH[OF d] by (simp add: kv assign_fresh[OF f])
qed

lemma spread_Nil: "distinct (map fst kvs) \<Longrightarrow> spread [] kvs = kvs"
  using spread_distinct[of "[]" kvs] by simp

lemma forwarded_options_Invoke:
  "forwarded_options (Invoke (Call m args)) =
     (if m = ''runYaml'' \<or> m = ''evaluateJavaScript'' then None
      else (case rev args of Obj opts # rest \<Rightarrow> Some opts | _ \<Rightarrow> None))"
  "forwarded_options NoCall = None"
  "forwarded_options (InvokeThen c r) = None"
  "forwarded_options (Unsupported ty) = None"
  by (simp_all add: forwarded_options_def)

lemma nullish_or_simps:
  "nullish_else Undefined d = d" "or_else Undefined d = d"
  by (simp_all add: nullish_else_def or_else_def)

text \<open>
  Every case of the \<open>switch\<close> that passes options passes the extracted options spread over
  the case's literal.
\<close>

lemma forwarded_literal:
  assumes "forwarded_options (dispatch_call step options) = Some opts"
    and "distinct (map fst options)"
  shows "opts = spread (option_literal step) options"
  using assms
  unfolding dispatch_call_def Let_def
  apply (simp only: forwarded_options_Invoke split: if_splits)
  apply (simp_all add: option_literal_def extraction_options_def extraction_tags_def spread_Nil)
  done

lemma literal_has_key:
  "has_key k (option_literal step) = (k \<in> set (always_passed (fld step ''type'')))"
  by (simp add: option_literal_def always_passed_def has_key_simps Let_def)

lemma literal_default:
  "k \<in> set option_keys \<Longrightarrow> fld step k = Undefined \<Longrightarrow>
     get k (option_literal step) = dispatcher_default (fld step ''type'') k"
  apply (simp only: option_keys_def list.set insert_iff empty_iff)
  apply (elim disjE)
  apply (simp_all add: option_literal_def dispatcher_default_def get_simps Let_def nullish_or_simps
      extraction_tags_def)
  done

lemma literal_other:
  "k \<notin> set option_keys \<Longrightarrow> has_key k (option_literal step) \<Longrightarrow>
     get k (option_literal step) = fld step k"
  unfolding option_literal_def Let_def option_keys_def
  by (auto simp: get_simps has_key_simps extraction_tags_def split: if_splits)

text \<open>
  Claim C5, as amended.  \<open>buildExecutionOptions\<close> holds exactly the option keys whose
  value on the step is defined, each with the step's value, and adds no default.  In the
  options an operation receives, every option key defined on the step keeps the step's
  value, and an option key that is not defined on the step reads as the default the step's
  tag gives it in the \<open>switch\<close>.  The keys of the options received are the option keys
  defined on the step together with the keys the case of the step's tag always writes:
  the keys with a default, \<open>title\<close> and \<open>content\<close> for \<open>logScreenshot\<close>, and \<open>verifyPrompt\<close>,
  \<open>retryLimit\<close> and \<open>deepThink\<close> for \<open>describeElementAtPoint\<close>, which are present holding
  \<open>undefined\<close> when the step lacks them.  Every other key is omitted, and a key that is
  not an option key holds the step's value.
\<close>

theorem forwarded_options_spec:
  "(\<forall>k. has_key k (buildExecutionOptions step) \<longleftrightarrow>
         k \<in> set option_keys \<and> fld step k \<noteq> Undefined) \<and>
   (\<forall>k. has_key k (buildExecutionOptions step) \<longrightarrow>
         get k (buildExecutionOptions step) = fld step k) \<and>
   (\<forall>opts k. forwarded_options (dispatch_call step (buildExecutionOptions step)) = Some opts \<and>
         k \<in> set option_keys \<longrightarrow>
         get k opts = (if fld step k \<noteq> Undefined then fld step k
                       else dispatcher_default (fld step ''type'') k)) \<and>
   (\<forall>opts k. forwarded_options (dispatch_call step (buildExecutionOptions step)) = Some opts \<longrightarrow>
         (has_key k opts \<longleftrightarrow>
            k \<in> set option_keys \<and> fld step k \<noteq> Undefined \<or>
            k \<in> set (always_passed (fld step ''type'')))) \<and>
   (\<forall>opts k. forwarded_options (dispatch_call step (buildExecutionOptions step)) = Some opts \<and>
         has_key k opts \<and> k \<notin> set option_keys \<longrightarrow> get k opts = fld step k)"
proof (intro conjI allI impI)
  fix k
  show "has_key k (buildExecutionOptions step) \<longleftrightarrow> k \<in> set option_keys \<and> fld step k \<noteq> Undefined"
    by (rule options_has_key)
next
  fix k assume "has_key k (buildExecutionOptions step)"
  then show "get k (buildExecutionOptions step) = fld step k"
    by (simp add: options_has_key options_get)
next
  fix opts k
  assume a: "forwarded_options (dispatch_call step (buildExecutionOptions step)) = Some opts \<and>
         k \<in> set option_keys"
  then have o: "opts = spread (option_literal step) (buildExecutionOptions step)"
    using forwarded_literal options_distinct by blast
  show "get k opts = (if fld step k \<noteq> Undefined then fld step k
                       else dispatcher_default (fld step ''type'') k)"
    using a literal_default[of k step]
    by (simp add: o get_spread options_distinct options_has_key options_get)
next
  fix opts k
  assume a: "forwarded_options (dispatch_call step (buildExecutionOptions step)) = Some opts"
  then have o: "opts = spread (option_literal step) (buildExecutionOptions step)"
    using forwarded_literal options_distinct by blast
  show "has_key k opts \<longleftrightarrow>
            k \<in> set option_keys \<and> fld step k \<noteq> Undefined \<or>
            k \<in> set (always_passed (fld step ''type''))"
    by (auto simp: o has_key_spread options_has_key literal_has_key)
next
  fix opts k
  assume a: "forwarded_options (dispatch_call step (buildExecutionOptions step)) = Some opts \<and>
         has_key k opts \<and> k \<notin> set option_keys"
  then have o: "opts = spread (option_literal step) (buildExecutionOptions step)"
    using forwarded_literal options_distinct by blast
  from a have n: "k \<notin> set option_keys" and hk: "has_key k opts" by simp_all
  from hk n have h: "has_key k (option_literal step)"
    unfolding o has_key_spread options_has_key by blast
  have g: "get k (option_literal step) = fld step k" by (rule literal_other[OF n h])
  show "get k opts = fld step k"
    using n g by (simp add: o get_spread options_distinct options_has_key)
qed

theorem forwarded_options_spec_witness:
  "forwarded_options (dispatch_call (pending_step ''s4'' wait_action)
                        (buildExecutionOptions (pending_step ''s4'' wait_action)))
     = Some [(''timeoutMs'', Num 0), (''checkIntervalMs'', Num 3000)] \<and>
   has_key ''timeoutMs'' (buildExecutionOptions (pending_step ''s4'' wait_action)) \<and>
   \<not> has_key ''checkIntervalMs'' (buildExecutionOptions (pending_step ''s4'' wait_action)) \<and>
   get ''timeoutMs'' [(''timeoutMs'', Num 0), (''checkIntervalMs'', Num 3000)] = Num 0 \<and>
   get ''checkIntervalMs'' [(''timeoutMs'', Num 0), (''checkIntervalMs'', Num 3000)] = Num 3000 \<and>
   \<not> has_key ''deepThink'' [(''timeoutMs'', Num 0), (''checkIntervalMs'', Num 3000)] \<and>
   buildExecutionOptions (pending_step ''s5'' point_action) = [] \<and>
   forwarded_options (dispatch_call (pending_step ''s5'' point_action)
                        (buildExecutionOptions (pending_step ''s5'' point_action)))
     = Some [(''verifyPrompt'', Undefined), (''retryLimit'', Undefined),
             (''deepThink'', Undefined)] \<and>
   has_key ''deepThink''
     [(''verifyPrompt'', Undefined), (''retryLimit'', Undefined), (''deepThink'', Undefined)] \<and>
   \<not> has_key ''timeoutMs''
     [(''verifyPrompt'', Undefined), (''retryLimit'', Undefined), (''deepThink'', Undefined)]"
proof -
  let ?step = "pending_step ''s4'' wait_action"
  let ?point = "pending_step ''s5'' point_action"
  have f: "forwarded_options (dispatch_call ?step (buildExecutionOptions ?step))
     = Some [(''timeoutMs'', Num 0), (''checkIntervalMs'', Num 3000)]"
    by code_simp
  have fp: "forwarded_options (dispatch_call ?point (buildExecutionOptions ?point))
     = Some [(''verifyPrompt'', Undefined), (''retryLimit'', Undefined),
             (''deepThink'', Undefined)]"
    by code_simp
  have bp: "buildExecutionOptions ?point = []" by code_simp
  have k: "''timeoutMs'' \<in> set option_keys" "''checkIntervalMs'' \<in> set option_keys"
    "''deepThink'' \<in> set option_keys"
    by (simp_all add: option_keys_def)
  have v: "fld ?step ''timeoutMs'' = Num 0" "fld ?step ''checkIntervalMs'' = Undefined"
    "fld ?step ''deepThink'' = Undefined" "fld ?step ''type'' = Str ''aiWaitFor''"
    by (simp_all add: fld_def pending_step_def wait_action_def get_def)
  have vp: "fld ?point ''timeoutMs'' = Undefined" "fld ?point ''deepThink'' = Undefined"
    "fld ?point ''type'' = Str ''describeElementAtPoint''"
    by (simp_all add: fld_def pending_step_def point_action_def get_def)
  have d: "dispatcher_default (Str ''aiWaitFor'') ''checkIntervalMs'' = Num 3000"
    by (simp add: dispatcher_default_def extraction_tags_def)
  have a: "always_passed (Str ''aiWaitFor'') = [''timeoutMs'', ''checkIntervalMs'']"
    "always_passed (Str ''describeElementAtPoint'')
       = [''verifyPrompt'', ''retryLimit'', ''deepThink'']"
    by (simp_all add: always_passed_def extraction_tags_def)
  from forwarded_options_spec[of ?step] f
  have s1: "has_key ''timeoutMs'' (buildExecutionOptions ?step)"
    "\<not> has_key ''checkIntervalMs'' (buildExecutionOptions ?step)"
    "get ''timeoutMs'' [(''timeoutMs'', Num 0), (''checkIntervalMs'', Num 3000)] = Num 0"
    "get ''checkIntervalMs'' [(''timeoutMs'', Num 0), (''checkIntervalMs'', Num 3000)] = Num 3000"
    "\<not> has_key ''deepThink'' [(''timeoutMs'', Num 0), (''checkIntervalMs'', Num 3000)]"
    using k v d a by simp_all
  from forwarded_options_spec[of ?point] fp
  have s2: "has_key ''deepThink''
       [(''verifyPrompt'', Undefined), (''retryLimit'', Undefined), (''deepThink'', Undefined)]"
    "\<not> has_key ''timeoutMs''
       [(''verifyPrompt'', Undefined), (''retryLimit'', Undefined), (''deepThink'', Undefined)]"
    using k vp a by simp_all
  show ?thesis using f fp bp s1 s2 by (intro conjI) assumption+
qed

text \<open>
  Claim C5 as stated fails: an \<open>aiAssert\<close> step without \<open>timeoutMs\<close> reaches the backend
  with \<open>timeoutMs: 15000\<close>, supplied by the dispatcher.
\<close>

theorem dispatcher_default_counterexample:
  "has_key ''timeoutMs'' assert_action = False \<and>
   buildExecutionOptions (pending_step ''s2'' assert_action) = [] \<and>
   forwarded_options (dispatch_call (pending_step ''s2'' assert_action)
                        (buildExecutionOptions (pending_step ''s2'' assert_action)))
     = Some [(''timeoutMs'', Num 15000)] \<and>
   backend_log (snd (snd (executeStep demo_env demo_world new_AutomationAgent
                            (pending_step ''s2'' assert_action))))
     = [Call ''aiAssert'' [Str ''dashboard is visible'', Undefined,
                           Obj [(''timeoutMs'', Num 15000)]]]"
  by code_simp

section \<open>The dispatcher returns\<close>

lemma dispatch_call_action:
  "action step1 = action step \<Longrightarrow> dispatch_call step1 opts = dispatch_call step opts"
  unfolding dispatch_call_def fld_def extraction_options_def by (simp only:)

lemma perform_fst:
  "backend_log w1 = backend_log w \<Longrightarrow> fst (perform e w1 req) = fst (perform e w req)"
  by (cases req) (auto simp: perform_def split: outcome.splits)

lemma dispatch_depends:
  "backend_log w1 = backend_log w \<Longrightarrow> action step1 = action step \<Longrightarrow>
     fst (dispatch e w1 step1) = fst (dispatch e w step)"
  unfolding dispatch_def buildExecutionOptions_def
  using dispatch_call_action[of step1 step] perform_fst[of w1 w] by simp

lemma destroyD:
  assumes "AutomationAgent_destroy e w a = (a', w')"
  shows "agent a' = None" "isInitialized a' = False"
    "drivers_made w' = drivers_made w" "backend_log w' = backend_log w"
    "clock_reads w' = clock_reads w"
    "pages_destroyed w' = pages_destroyed w @ (case agent a of None \<Rightarrow> [] | Some n \<Rightarrow> [n])"
  using assms
  by (auto simp: AutomationAgent_destroy_def AutomationAgent_reset_def Let_def
           split: option.splits if_splits)

lemma createD:
  assumes "createAgent w a = (a', w')"
  shows "agent a' = Some (drivers_made w)" "drivers_made w' = Suc (drivers_made w)"
    "backend_log w' = backend_log w" "clock_reads w' = clock_reads w"
    "pages_destroyed w' = pages_destroyed w"
  using assms by (auto simp: createAgent_def Let_def)

lemma stampD:
  assumes "stamp_start e w step = (step', w')"
  shows "action step' = action step" "step_id step' = step_id step"
    "drivers_made w' = drivers_made w" "backend_log w' = backend_log w"
    "pages_destroyed w' = pages_destroyed w"
  using assms by (auto simp: stamp_start_def Date_now_def Let_def split: if_splits)

lemma dispatchD:
  assumes "dispatch e w step = (out, w')"
  shows "drivers_made w' = drivers_made w" "pages_destroyed w' = pages_destroyed w"
    "clock_reads w' = clock_reads w"
  using assms
  by (auto simp: dispatch_def perform_def split: request.splits outcome.splits)

lemma nowD:
  assumes "Date_now e w = (t, w')"
  shows "drivers_made w' = drivers_made w" "pages_destroyed w' = pages_destroyed w"
    "backend_log w' = backend_log w" "t = date_now e (clock_reads w)"
  using assms by (auto simp: Date_now_def)

lemma settleD:
  shows "action (settle step out t) = action step" "step_id (settle step out t) = step_id step"
    "status (settle step out t) = (case out of Returns r \<Rightarrow> Success | Throws err \<Rightarrow> Failed)"
  by (auto simp: settle_def split: outcome.splits)

lemma executeStep_returns:
  "\<exists>step' a' w'. executeStep e w a step = (Inr step', a', w') \<and>
      (status step' = Success \<or> status step' = Failed) \<and>
      \<not> isReady a' \<and>
      drivers_made w' = Suc (drivers_made w) \<and>
      drivers_made w \<in> set (pages_destroyed w') \<and>
      step_id step' = step_id step \<and> action step' = action step \<and>
      (case fst (dispatch e w step) of
         Throws err \<Rightarrow> status step' = Failed \<and>
            error step' = Str (message_or err ''Unknown error when executing step'')
       | Returns r \<Rightarrow> status step' = Success \<and> result step' = r)"
proof -
  obtain a1 w1 where d1: "AutomationAgent_destroy e w a = (a1, w1)" by force
  obtain a2 w2 where c: "createAgent w1 a1 = (a2, w2)" by force
  obtain step1 w3 where s: "stamp_start e w2 step = (step1, w3)" by force
  obtain out w4 where p: "dispatch e w3 step1 = (out, w4)" by force
  obtain t w5 where n: "Date_now e w4 = (t, w5)" by force
  obtain a3 w6 where d2: "AutomationAgent_destroy e w5 a2 = (a3, w6)" by force
  have ag: "agent a2 = Some (drivers_made w)"
    using createD(1)[OF c] destroyD(3)[OF d1] by simp
  have run: "executeStep e w a step = (Inr (settle step1 out t), a3, w6)"
    by (simp add: executeStep_def d1 c s p n d2 ag)
  have made: "drivers_made w6 = Suc (drivers_made w)"
    using destroyD(3)[OF d1] createD(2)[OF c] stampD(3)[OF s] dispatchD(1)[OF p] nowD(1)[OF n]
      destroyD(3)[OF d2] by simp
  have torn: "drivers_made w \<in> set (pages_destroyed w6)"
    using destroyD(6)[OF d2] ag by simp
  have log: "backend_log w3 = backend_log w"
    using destroyD(4)[OF d1] createD(3)[OF c] stampD(4)[OF s] by simp
  have out: "fst (dispatch e w step) = out"
    using dispatch_depends[OF log stampD(1)[OF s], of e] p by simp
  have ready: "\<not> isReady a3"
    using destroyD(1)[OF d2] by (simp add: isReady_def)
  show ?thesis
    unfolding run out using made torn ready
    by (cases out) (simp_all add: settle_def stampD[OF s])
qed

lemma executeStep_torn_down:
  "\<exists>step' a' w'. executeStep e w a step = (Inr step', a', w') \<and>
      pages_destroyed w' =
        pages_destroyed w @ (case agent a of None \<Rightarrow> [] | Some n \<Rightarrow> [n]) @ [drivers_made w]"
proof -
  obtain a1 w1 where d1: "AutomationAgent_destroy e w a = (a1, w1)" by force
  obtain a2 w2 where c: "createAgent w1 a1 = (a2, w2)" by force
  obtain step1 w3 where s: "stamp_start e w2 step = (step1, w3)" by force
  obtain out w4 where p: "dispatch e w3 step1 = (out, w4)" by force
  obtain t w5 where n: "Date_now e w4 = (t, w5)" by force
  obtain a3 w6 where d2: "AutomationAgent_destroy e w5 a2 = (a3, w6)" by force
  have ag: "agent a2 = Some (drivers_made w)"
    using createD(1)[OF c] destroyD(3)[OF d1] by simp
  have run: "executeStep e w a step = (Inr (settle step1 out t), a3, w6)"
    by (simp add: executeStep_def d1 c s p n d2 ag)
  have "pages_destroyed w6 =
        pages_destroyed w @ (case agent a of None \<Rightarrow> [] | Some n \<Rightarrow> [n]) @ [drivers_made w]"
    using destroyD(6)[OF d1] createD(5)[OF c] stampD(5)[OF s] dispatchD(2)[OF p] nowD(2)[OF n]
      destroyD(6)[OF d2] ag by simp
  with run show ?thesis by simp
qed

text \<open>
  Claim C4.  \<open>executeStep\<close> always returns the step and never throws.  When the backend
  operation of the step throws, the step is \<open>failed\<close> with the message of the error (or
  the fixed text, for a thrown value that is no \<open>Error\<close>); when it returns, the step is
  \<open>success\<close> with the returned value.  On both paths the dispatcher is not ready
  afterwards, and \<open>page.destroy()\<close> has been called on the driver held before, if any,
  and on the driver created for this step.
\<close>

theorem executeStep_failure_semantics:
  "\<exists>step' a' w'. executeStep e w a step = (Inr step', a', w') \<and>
      (case fst (dispatch e w step) of
         Throws err \<Rightarrow> status step' = Failed \<and>
            error step' = Str (message_or err ''Unknown error when executing step'')
       | Returns r \<Rightarrow> status step' = Success \<and> result step' = r) \<and>
      \<not> isReady a' \<and>
      pages_destroyed w' =
        pages_destroyed w @ (case agent a of None \<Rightarrow> [] | Some n \<Rightarrow> [n]) @ [drivers_made w]"
  using executeStep_returns[of e w a step] executeStep_torn_down[of e w a step] by auto

theorem executeStep_failure_semantics_witness:
  "fst (dispatch demo_env demo_world (pending_step ''s2'' assert_action)) =
     Throws (Error ''Assertion failed'') \<and>
   (\<exists>step' a' w'.
      executeStep demo_env demo_world new_AutomationAgent (pending_step ''s2'' assert_action) =
        (Inr step', a', w') \<and>
      status step' = Failed \<and> error step' = Str ''Assertion failed'' \<and>
      \<not> isReady a' \<and> pages_destroyed w' = [0])"
proof -
  have d: "fst (dispatch demo_env demo_world (pending_step ''s2'' assert_action)) =
     Throws (Error ''Assertion failed'')"
    by code_simp
  have i: "agent new_AutomationAgent = None" "pages_destroyed demo_world = []"
    "drivers_made demo_world = 0"
    by (simp_all add: new_AutomationAgent_def demo_world_def)
  from executeStep_failure_semantics[of demo_env demo_world new_AutomationAgent
      "pending_step ''s2'' assert_action"]
  show ?thesis using d i by auto
qed

section \<open>The step loop\<close>

lemma completed_steps_append:
  "completed_steps (xs @ ys) = completed_steps xs @ completed_steps ys"
  by (induction xs rule: completed_steps.induct) auto

lemma after_step_simps:
  "testCase (after_step i step1 step' a' ex) =
     (testCase ex)\<lparr>steps := (steps (testCase ex))[i := step']\<rparr>"
  "emitted (after_step i step1 step' a' ex) =
     emitted ex @ [stepStarted step1 (step_id step1), stepCompleted step' (step_id step')]"
  "exec_agent (after_step i step1 step' a' ex) = a'"
  "isDestroyed (after_step i step1 step' a' ex) = isDestroyed ex"
  by (simp_all add: after_step_def emit_def set_step_def)

lemma executeSteps_iteration:
  assumes "i < length (steps (testCase ex))"
  obtains step1 step' a' w2 where
    "status step' = Success \<or> status step' = Failed"
    "drivers_made w2 = Suc (drivers_made w)"
    "executeStepsFrom e i ex w =
       (if status step' = Failed
        then (Inr (steps (testCase (after_step i step1 step' a' ex))), after_step i step1 step' a' ex, w2)
        else executeStepsFrom e (Suc i) (after_step i step1 step' a' ex) w2)"
proof -
  define step1 where
    "step1 = (steps (testCase ex) ! i)\<lparr>status := Running, startTime := Num (int (date_now e (clock_reads w)))\<rparr>"
  define w1 where "w1 = w\<lparr>clock_reads := Suc (clock_reads w)\<rparr>"
  obtain step' a' w2 where
    run: "executeStep e w1 (exec_agent ex) step1 = (Inr step', a', w2)"
    and st: "status step' = Success \<or> status step' = Failed"
    and made: "drivers_made w2 = Suc (drivers_made w1)"
    using executeStep_returns[of e w1 "exec_agent ex" step1] by blast
  have "executeStepsFrom e i ex w =
       (if status step' = Failed
        then (Inr (steps (testCase (after_step i step1 step' a' ex))), after_step i step1 step' a' ex, w2)
        else executeStepsFrom e (Suc i) (after_step i step1 step' a' ex) w2)"
    apply (subst executeStepsFrom.simps)
    apply (simp add: assms Date_now_def Let_def set_step_def emit_def after_step_def
              step1_def[symmetric] w1_def[symmetric] run del: executeStepsFrom.simps)
    done
  then show ?thesis
    using that[of step' w2 step1 a'] st made by (simp add: w1_def)
qed

lemma loop_spec:
  assumes "executeStepsFrom e i ex w = (r, ex', w')" and "i \<le> length (steps (testCase ex))"
  shows "\<exists>q evs. loop_post i q ex w r ex' w' evs"
  using assms
proof (induction "length (steps (testCase ex)) - i" arbitrary: i ex w)
  case 0
  then have "i = length (steps (testCase ex))" by simp
  then have "executeStepsFrom e i ex w = (Inr (steps (testCase ex)), ex, w)"
    by (subst executeStepsFrom.simps) simp
  with 0 have "r = Inr (steps (testCase ex))" "ex' = ex" "w' = w" by auto
  then have "loop_post i i ex w r ex' w' []"
    using \<open>i = length (steps (testCase ex))\<close> by (auto simp: loop_post_def Let_def)
  then show ?case by blast
next
  case (Suc k)
  then have lt: "i < length (steps (testCase ex))" by simp
  obtain step1 step' a' w2 where
    st: "status step' = Success \<or> status step' = Failed"
    and made: "drivers_made w2 = Suc (drivers_made w)"
    and it: "executeStepsFrom e i ex w =
       (if status step' = Failed
        then (Inr (steps (testCase (after_step i step1 step' a' ex))), after_step i step1 step' a' ex, w2)
        else executeStepsFrom e (Suc i) (after_step i step1 step' a' ex) w2)"
    using executeSteps_iteration[OF lt, where e=e and w=w] by metis
  define ex3 where "ex3 = after_step i step1 step' a' ex"
  have s3: "steps (testCase ex3) = (steps (testCase ex))[i := step']"
    and t3: "testCase ex3 = (testCase ex)\<lparr>steps := (steps (testCase ex))[i := step']\<rparr>"
    and e3: "emitted ex3 = emitted ex @ [stepStarted step1 (step_id step1), stepCompleted step' (step_id step')]"
    and d3: "isDestroyed ex3 = isDestroyed ex"
    by (simp_all add: ex3_def after_step_simps)
  show ?case
  proof (cases "status step' = Failed")
    case True
    with it Suc.prems(1) have res: "r = Inr (steps (testCase ex3))" "ex' = ex3" "w' = w2"
      by (auto simp: ex3_def)
    have "loop_post i (Suc i) ex w r ex' w' [stepStarted step1 (step_id step1), stepCompleted step' (step_id step')]"
      unfolding loop_post_def Let_def res
      using lt True made by (auto simp: s3 t3 e3 d3)
    then show ?thesis by blast
  next
    case False
    with st have ok: "status step' = Success" by simp
    from False it Suc.prems(1) have rec: "executeStepsFrom e (Suc i) ex3 w2 = (r, ex', w')"
      by (simp add: ex3_def)
    have len3: "length (steps (testCase ex3)) = length (steps (testCase ex))" by (simp add: s3)
    have "k = length (steps (testCase ex3)) - Suc i" using Suc.hyps(2) len3 by simp
    moreover have "Suc i \<le> length (steps (testCase ex3))" using lt len3 by simp
    ultimately obtain q evs where post: "loop_post (Suc i) q ex3 w2 r ex' w' evs"
      using Suc.hyps(1)[OF _ rec] by blast
    let ?old = "steps (testCase ex)" and ?new = "steps (testCase ex')"
    from post have p1: "Suc i \<le> q" "q \<le> length ?old" "r = Inr ?new" "length ?new = length ?old"
      and p2: "testCase ex' = (testCase ex3)\<lparr>steps := ?new\<rparr>" "isDestroyed ex' = isDestroyed ex3"
      and p3: "\<forall>j<Suc i. ?new ! j = (steps (testCase ex3)) ! j"
      and p4: "\<forall>j. q \<le> j \<and> j < length ?old \<longrightarrow> ?new ! j = (steps (testCase ex3)) ! j"
      and p5: "\<forall>j. Suc i \<le> j \<and> Suc j < q \<longrightarrow> status (?new ! j) = Success"
      and p6: "Suc i < q \<longrightarrow> status (?new ! (q - 1)) = Success \<or> status (?new ! (q - 1)) = Failed"
      and p7: "q < length ?old \<longrightarrow> Suc i < q \<and> status (?new ! (q - 1)) = Failed"
      and p8: "emitted ex' = emitted ex3 @ evs" "completed_steps evs = map (\<lambda>j. ?new ! j) [Suc i..<q]"
      and p9: "drivers_made w' = drivers_made w2 + (q - Suc i)"
      by (simp_all add: loop_post_def Let_def len3)
    have newi: "?new ! i = step'" using p3 lt by (simp add: s3)
    have a: "\<forall>j<i. ?new ! j = ?old ! j" using p3 by (simp add: s3)
    have b: "\<forall>j. q \<le> j \<and> j < length ?old \<longrightarrow> ?new ! j = ?old ! j"
      using p4 p1(1) by (simp add: s3)
    have c: "\<forall>j. i \<le> j \<and> Suc j < q \<longrightarrow> status (?new ! j) = Success"
    proof (intro allI impI)
      fix j assume j: "i \<le> j \<and> Suc j < q"
      show "status (?new ! j) = Success"
      proof (cases "j = i")
        case True then show ?thesis using newi ok by simp
      next
        case False then show ?thesis using p5 j by simp
      qed
    qed
    have d: "status (?new ! (q - 1)) = Success \<or> status (?new ! (q - 1)) = Failed"
    proof (cases "Suc i < q")
      case True then show ?thesis using p6 by simp
    next
      case False
      then have "q - 1 = i" using p1(1) by simp
      then show ?thesis using newi ok by simp
    qed
    have f: "q < length ?old \<longrightarrow> i < q \<and> status (?new ! (q - 1)) = Failed" using p7 p1(1) by auto
    have g: "emitted ex' = emitted ex @ ([stepStarted step1 (step_id step1), stepCompleted step' (step_id step')] @ evs)"
      using p8(1) by (simp add: e3)
    have h: "completed_steps ([stepStarted step1 (step_id step1), stepCompleted step' (step_id step')] @ evs)
               = map (\<lambda>j. ?new ! j) [i..<q]"
      using p8(2) p1(1) newi by (simp add: upt_conv_Cons)
    have m: "drivers_made w' = drivers_made w + (q - i)" using p9 made p1(1) by simp
    have tc: "testCase ex' = (testCase ex)\<lparr>steps := ?new\<rparr>" using p2(1) by (simp add: t3)
    have "loop_post i q ex w r ex' w'
            ([stepStarted step1 (step_id step1), stepCompleted step' (step_id step')] @ evs)"
      unfolding loop_post_def Let_def
      using p1 tc p2(2) a b c d f g h m by (simp add: d3)
    then show ?thesis by blast
  qed
qed

lemma take_as_map_nth: "q \<le> length xs \<Longrightarrow> map (\<lambda>j. xs ! j) [0..<q] = take q xs"
proof -
  assume q: "q \<le> length xs"
  have "take q xs = take q (map (\<lambda>j. xs ! j) [0..<length xs])" by (simp add: map_nth)
  also have "\<dots> = map (\<lambda>j. xs ! j) (take q [0..<length xs])" by (simp add: take_map)
  also have "\<dots> = map (\<lambda>j. xs ! j) [0..<q]" using q by (simp add: take_upt)
  finally show ?thesis by simp
qed

lemma execute_eq:
  "execute e w ex =
     (case executeStepsFrom e 0 (started e w ex) (w\<lparr>clock_reads := Suc (clock_reads w)\<rparr>) of
        (Inr res, ex3, w2) \<Rightarrow>
          (Inr (testCase (finished e w2 res ex3)), finished e w2 res ex3,
           w2\<lparr>clock_reads := Suc (clock_reads w2)\<rparr>)
      | (Inl err, ex3, w2) \<Rightarrow> (Inl err, updateStatus CaseFailed ex3, w2))"
  unfolding execute_def executeStepsWithProgress_def started_def finished_def Let_def Date_now_def
    getTestCase_def split_def
  by (simp add: updateStatus_def Let_def emit_def getTestCase_def split: sum.splits)

lemma started_simps:
  "testCase (started e w ex) =
     (testCase ex)\<lparr>case_status := CaseRunning, case_startTime := Some (date_now e (clock_reads w))\<rparr>"
  "emitted (started e w ex) =
     emitted ex @ [caseStatusChanged ((testCase ex)\<lparr>case_status := CaseRunning\<rparr>)]"
  "exec_agent (started e w ex) = exec_agent ex"
  "isDestroyed (started e w ex) = isDestroyed ex"
  by (simp_all add: started_def updateStatus_def emit_def getTestCase_def Let_def)

lemma finished_simps:
  "testCase (finished e w res ex) =
     (testCase ex)\<lparr>case_status := (if list_all (\<lambda>step. status step = Success) res
                                     then Completed else CaseFailed),
                     case_endTime := Some (date_now e (clock_reads w))\<rparr>"
  "emitted (finished e w res ex) = emitted ex @ [caseStatusChanged (testCase (finished e w res ex))]"
  "exec_agent (finished e w res ex) = exec_agent ex"
  "isDestroyed (finished e w res ex) = isDestroyed ex"
  by (simp_all add: finished_def updateStatus_def emit_def getTestCase_def Let_def)

lemma execute_spec:
  assumes "execute e w ex = (r, ex', w')"
  shows "\<exists>q evs. execute_post e q ex w r ex' w' evs"
proof -
  define w1 where "w1 = w\<lparr>clock_reads := Suc (clock_reads w)\<rparr>"
  define ex2 where "ex2 = started e w ex"
  obtain r3 ex3 w2 where loop: "executeStepsFrom e 0 ex2 w1 = (r3, ex3, w2)"
    using prod_cases3 by blast
  obtain q evs where post: "loop_post 0 q ex2 w1 r3 ex3 w2 evs"
    using loop_spec[OF loop] by auto
  define new where "new = steps (testCase ex3)"
  define fin where "fin = (if list_all (\<lambda>s. status s = Success) new then Completed else CaseFailed)"
  let ?old = "steps (testCase ex)"
  have st2: "steps (testCase ex2) = ?old" by (simp add: ex2_def started_simps)
  from post have p1: "q \<le> length ?old" "r3 = Inr new" "length new = length ?old"
    and p2: "testCase ex3 = (testCase ex2)\<lparr>steps := new\<rparr>"
    and p4: "\<forall>j. q \<le> j \<and> j < length ?old \<longrightarrow> new ! j = ?old ! j"
    and p5: "\<forall>j. Suc j < q \<longrightarrow> status (new ! j) = Success"
    and p6: "0 < q \<longrightarrow> status (new ! (q - 1)) = Success \<or> status (new ! (q - 1)) = Failed"
    and p7: "q < length ?old \<longrightarrow> 0 < q \<and> status (new ! (q - 1)) = Failed"
    and p8: "emitted ex3 = emitted ex2 @ evs" "completed_steps evs = map (\<lambda>j. new ! j) [0..<q]"
    and p9: "drivers_made w2 = drivers_made w1 + q"
    by (simp_all add: loop_post_def Let_def st2 new_def)
  have ex: "execute e w ex =
      (Inr (testCase (finished e w2 new ex3)), finished e w2 new ex3,
       w2\<lparr>clock_reads := Suc (clock_reads w2)\<rparr>)"
    using loop by (simp add: execute_eq ex2_def w1_def p1(2))
  with assms have res: "r = Inr (testCase (finished e w2 new ex3))" "ex' = finished e w2 new ex3"
     "w' = w2\<lparr>clock_reads := Suc (clock_reads w2)\<rparr>" by auto
  have tc0: "testCase ex' = (testCase ex)
        \<lparr>steps := new, case_status := fin,
         case_startTime := Some (date_now e (clock_reads w)),
         case_endTime := Some (date_now e (clock_reads w2))\<rparr>"
    by (simp add: res finished_simps p2 ex2_def started_simps fin_def)
  have ste: "steps (testCase ex') = new" by (simp add: tc0)
  have cs: "completed_steps evs = take q new" using p8(2) p1 by (simp add: take_as_map_nth)
  have em: "emitted ex' =
       emitted ex @ [caseStatusChanged ((testCase ex)\<lparr>case_status := CaseRunning\<rparr>)] @ evs
         @ [caseStatusChanged (testCase ex')]"
    by (simp add: res finished_simps p8 ex2_def started_simps)
  have tc: "testCase ex' = (testCase ex)
        \<lparr>steps := new,
         case_status := (if list_all (\<lambda>s. status s = Success) new then Completed else CaseFailed),
         case_startTime := Some (date_now e (clock_reads w)),
         case_endTime := case_endTime (testCase ex')\<rparr>"
    by (simp add: tc0 fin_def)
  have en: "case_endTime (testCase ex') \<noteq> None" by (simp add: tc0)
  have dm: "drivers_made w' = drivers_made w + q" using p9 by (simp add: res w1_def)
  have r: "r = Inr (testCase ex')" by (simp add: res)
  have "execute_post e q ex w r ex' w' evs"
    unfolding execute_post_def Let_def ste
    using p1(1) r p1(3) p4 p5 p6 p7 cs em dm tc en by (intro conjI) assumption+
  then show ?thesis by blast
qed

lemma execute_dispatched:
  assumes "execute_post e q ex w r ex' w' evs"
  shows "completed_steps (drop (length (emitted ex)) (emitted ex')) = take q (steps (testCase ex'))"
proof -
  from assms have em: "emitted ex' =
       emitted ex @ [caseStatusChanged ((testCase ex)\<lparr>case_status := CaseRunning\<rparr>)] @ evs
         @ [caseStatusChanged (testCase ex')]"
    and cs: "completed_steps evs = take q (steps (testCase ex'))"
    by (simp_all add: execute_post_def Let_def)
  have "drop (length (emitted ex)) (emitted ex') =
      [caseStatusChanged ((testCase ex)\<lparr>case_status := CaseRunning\<rparr>)] @ evs
         @ [caseStatusChanged (testCase ex')]"
    by (subst em) simp
  then show ?thesis using cs by (simp add: completed_steps_append)
qed

section \<open>Fail-fast execution\<close>

text \<open>
  Claim C1.  Let \<open>dispatched\<close> be the steps \<open>execute\<close> has dispatched, in order.  If the
  dispatch of step \<open>k\<close> returned status \<open>failed\<close>, the iteration stopped there: the
  dispatched steps are exactly the steps \<open>0..k\<close> of the list, those before \<open>k\<close> succeeded (so
  \<open>k\<close> is the first failure), exactly \<open>k + 1\<close> drivers were created, every step after \<open>k\<close>
  is the step it was before the run, and the case ends \<open>failed\<close>.
\<close>

theorem fail_fast:
  assumes run: "execute e w ex = (r, ex', w')"
    and disp: "dispatched = completed_steps (drop (length (emitted ex)) (emitted ex'))"
    and k: "k < length dispatched" and failed: "status (dispatched ! k) = Failed"
  shows "dispatched = take (Suc k) (steps (testCase ex')) \<and>
         (\<forall>i<k. status (dispatched ! i) = Success) \<and>
         drivers_made w' = drivers_made w + Suc k \<and>
         length (steps (testCase ex')) = length (steps (testCase ex)) \<and>
         (\<forall>j. k < j \<and> j < length (steps (testCase ex)) \<longrightarrow>
              steps (testCase ex') ! j = steps (testCase ex) ! j) \<and>
         case_status (testCase ex') = CaseFailed \<and>
         r = Inr (testCase ex')"
proof -
  obtain q evs where post: "execute_post e q ex w r ex' w' evs"
    using execute_spec[OF run] by blast
  define new where "new = steps (testCase ex')"
  let ?old = "steps (testCase ex)"
  from post have p1: "q \<le> length ?old" "r = Inr (testCase ex')" "length new = length ?old"
    and p4: "\<forall>j. q \<le> j \<and> j < length ?old \<longrightarrow> new ! j = ?old ! j"
    and p5: "\<forall>j. Suc j < q \<longrightarrow> status (new ! j) = Success"
    and p9: "drivers_made w' = drivers_made w + q"
    and tc: "testCase ex' = (testCase ex)
        \<lparr>steps := new,
         case_status := (if list_all (\<lambda>s. status s = Success) new then Completed else CaseFailed),
         case_startTime := Some (date_now e (clock_reads w)),
         case_endTime := case_endTime (testCase ex')\<rparr>"
    by (simp_all add: execute_post_def Let_def new_def)
  have d: "dispatched = take q new"
    using execute_dispatched[OF post] disp by (simp add: new_def)
  have kq: "k < q" using k d by simp
  have nk: "status (new ! k) = Failed" using failed d kq by simp
  have "\<not> Suc k < q" using p5 nk by auto
  with kq have q: "q = Suc k" by simp
  have c1: "dispatched = take (Suc k) new" using d q by simp
  have c2: "\<forall>i<k. status (dispatched ! i) = Success" using p5 d q by simp
  have c3: "drivers_made w' = drivers_made w + Suc k" using p9 q by simp
  have c5: "\<forall>j. k < j \<and> j < length ?old \<longrightarrow> new ! j = ?old ! j" using p4 q by simp
  have "k < length new" using kq p1 by simp
  then have "new ! k \<in> set new" by simp
  with nk have "\<exists>s\<in>set new. status s \<noteq> Success"
    by (intro bexI[of _ "new ! k"]) simp_all
  then have "\<not> list_all (\<lambda>s. status s = Success) new"
    by (simp add: list_all_iff)
  then have c6: "case_status (testCase ex') = CaseFailed"
    by (subst tc) simp
  show ?thesis
    using c1 c2 c3 p1(3) c5 c6 p1(2) unfolding new_def by (intro conjI) assumption+
qed

theorem fail_fast_witness:
  "1 < length (completed_steps (drop (length (emitted (demo_executor three_steps)))
                                  (emitted (fst (snd failing_run))))) \<and>
   status (completed_steps (drop (length (emitted (demo_executor three_steps)))
                              (emitted (fst (snd failing_run)))) ! 1) = Failed \<and>
   steps (testCase (fst (snd failing_run))) ! 2 = three_steps ! 2 \<and>
   status (three_steps ! 2) = Pending \<and>
   drivers_made (snd (snd failing_run)) = 2 \<and>
   case_status (testCase (fst (snd failing_run))) = CaseFailed"
proof -
  have run: "execute demo_env demo_world (demo_executor three_steps) =
      (fst failing_run, fst (snd failing_run), snd (snd failing_run))"
    by (simp add: failing_run_def)
  have k: "1 < length (completed_steps (drop (length (emitted (demo_executor three_steps)))
                                          (emitted (fst (snd failing_run)))))"
    by code_simp
  have f: "status (completed_steps (drop (length (emitted (demo_executor three_steps)))
                                      (emitted (fst (snd failing_run)))) ! 1) = Failed"
    by code_simp
  have old: "steps (testCase (demo_executor three_steps)) = three_steps"
    "length three_steps = 3" "drivers_made demo_world = 0" "status (three_steps ! 2) = Pending"
    by (simp_all add: demo_executor_def three_steps_def demo_world_def pending_step_def)
  from fail_fast[OF run refl k f] show ?thesis
    using k f old by simp
qed




text \<open>
  Claim C10.  On an empty step list \<open>execute\<close> returns normally: the case is \<open>completed\<close>,
  the start and end times are the two clock readings taken, the only events are the two
  case-status notifications, and nothing else changes (no driver is created, no backend
  operation is invoked).
\<close>

theorem execute_empty:
  assumes "steps (testCase ex) = []"
  shows "execute e w ex =
    (let tc = (testCase ex)\<lparr>case_status := Completed,
                 case_startTime := Some (date_now e (clock_reads w)),
                 case_endTime := Some (date_now e (Suc (clock_reads w)))\<rparr>
     in (Inr tc,
         ex\<lparr>testCase := tc,
            emitted := emitted ex @ [caseStatusChanged ((testCase ex)\<lparr>case_status := CaseRunning\<rparr>),
                                     caseStatusChanged tc]\<rparr>,
         w\<lparr>clock_reads := Suc (Suc (clock_reads w))\<rparr>))"
proof -
  have "steps (testCase (started e w ex)) = []" using assms by (simp add: started_simps)
  then have "executeStepsFrom e 0 (started e w ex) (w\<lparr>clock_reads := Suc (clock_reads w)\<rparr>) =
      (Inr [], started e w ex, w\<lparr>clock_reads := Suc (clock_reads w)\<rparr>)"
    by (subst executeStepsFrom.simps) simp
  then show ?thesis
    by (simp add: execute_eq finished_def started_def updateStatus_def emit_def getTestCase_def Let_def)
qed

theorem execute_empty_witness:
  "steps (testCase (demo_executor [])) = [] \<and>
   fst (execute demo_env demo_world (demo_executor [])) =
     Inr ((testCase (demo_executor []))
            \<lparr>case_status := Completed, case_startTime := Some 1000, case_endTime := Some 1001\<rparr>) \<and>
   snd (snd (execute demo_env demo_world (demo_executor []))) = demo_world\<lparr>clock_reads := 2\<rparr>"
proof -
  have h: "steps (testCase (demo_executor [])) = []" by (simp add: demo_executor_def)
  show ?thesis
    using execute_empty[OF h, of demo_env demo_world] h
    by (simp add: Let_def demo_env_def demo_world_def)
qed

section \<open>Parsing a case\<close>

lemma zparse_object2:
  assumes "zparse (ZObject [(k1, s1), (k2, s2)] Strip) v = Inr p"
  shows "\<exists>kvs y1 y2. v = Obj kvs \<and> zparse s1 (get k1 kvs) = Inr y1 \<and>
           zparse s2 (get k2 kvs) = Inr y2 \<and>
           p = Obj (filter (\<lambda>ky. snd ky \<noteq> Undefined \<or> has_key (fst ky) kvs) [(k1, y1), (k2, y2)])"
  using assms by (cases v) (auto simp: keyed_def split: sum.splits)

lemma all_success_rel:
  "all_success (map f xs) = Inr ys \<Longrightarrow> list_all2 (\<lambda>x y. f x = Inr y) xs ys"
  by (induction xs arbitrary: ys) (auto split: sum.splits)

lemma zparse_array_out:
  assumes "zparse (ZArray s) v = Inr y"
  shows "\<exists>xs ys. v = Arr xs \<and> y = Arr ys \<and> list_all2 (\<lambda>x y. zparse s x = Inr y) xs ys"
  using assms by (cases v) (auto split: sum.splits dest: all_success_rel)

lemma zparse_string_out: "zparse ZString v = Inr y \<Longrightarrow> \<exists>s. y = Str s"
  by (cases v) auto

lemma list_all2_outputs:
  "list_all2 (\<lambda>x y. f x = Inr y) xs ys \<Longrightarrow> \<forall>y\<in>set ys. \<exists>x. f x = Inr y"
  by (induction rule: list_all2_induct) auto

lemma list_all2_sources:
  "list_all2 (\<lambda>x y. f x = Inr y) xs ys \<Longrightarrow> \<forall>y\<in>set ys. \<exists>x\<in>set xs. f x = Inr y"
  by (induction rule: list_all2_induct) auto

text \<open>
  \<open>generateDescription\<close> throws only from \<open>Object.keys(null)\<close>, and the data demand of a
  validated action is a string or a record, never \<open>null\<close>: describing a validated action
  returns.
\<close>

lemma describe_total: "get ''dataDemand'' a \<noteq> Null \<Longrightarrow> \<exists>d. describe a = Inr d"
  by (cases "get ''dataDemand'' a")
     (simp_all add: describe_def Let_def demand_keys_def in_or_def)

lemma output_field:
  assumes "zparse (ZObject shp uk) v = Inr (Obj out)" and "(k, y) \<in> set out"
  shows "\<exists>s x. (k, s) \<in> set shp \<and> zparse s x = Inr y"
proof -
  from assms(1) obtain kvs where v: "v = Obj kvs" by (cases v) auto
  let ?f = "\<lambda>ks. keyed (fst ks) (zparse (snd ks) (get (fst ks) kvs))"
  from assms(1) v obtain out0 where o: "all_success (map ?f shp) = Inr out0"
    and p: "out = filter (\<lambda>ky. snd ky \<noteq> Undefined \<or> has_key (fst ky) kvs) out0"
    by (auto split: sum.splits if_splits)
  from assms(2) p have m: "(k, y) \<in> set out0" by simp
  from list_all2_sources[OF all_success_rel[OF o]] m obtain ks where ks: "ks \<in> set shp" "?f ks = Inr (k, y)" by blast
  from ks(2) have "fst ks = k" "zparse (snd ks) (get (fst ks) kvs) = Inr y"
    by (auto simp: keyed_def split: sum.splits)
  with ks(1) show ?thesis by (metis prod.collapse)
qed

lemma demand_schema:
  "\<forall>opt\<in>set AIActionOptions. \<forall>s. (''dataDemand'', s) \<in> set (shape opt) \<longrightarrow>
     s = ZUnion [ZString, ZRecord ZString]"
  by (simp add: schema_defs)

lemma demand_union_out: "zparse (ZUnion [ZString, ZRecord ZString]) x \<noteq> Inr Null"
  by (cases x) (auto split: sum.splits)

lemma described:
  assumes "zparse AIActionSchema a = Inr p"
  shows "\<exists>out d. p = Obj out \<and> generateDescription p = Inr d"
proof -
  from assms obtain kvs where a: "a = Obj kvs" by (cases a) (auto simp: AIActionSchema_def)
  from assms a obtain tag where t: "get ''type'' kvs = Str tag"
    by (cases "get ''type'' kvs") (auto simp: AIActionSchema_def)
  from assms a t obtain opt rest where
    f: "filter (\<lambda>opt. discriminator_of ''type'' opt = Some tag) AIActionOptions = opt # rest"
    and z: "zparse opt (Obj kvs) = Inr p"
    by (auto simp: AIActionSchema_def split: list.splits)
  from f have m: "opt \<in> set AIActionOptions" by (rule filter_head_member)
  then obtain shp where o: "opt = ZObject shp Strip" using options_are_objects by blast
  from object_output_keys[OF z[unfolded o]] obtain out where p: "p = Obj out" by blast
  have "get ''dataDemand'' out \<noteq> Null"
  proof
    assume "get ''dataDemand'' out = Null"
    then have "map_of out ''dataDemand'' = Some Null"
      by (simp add: get_def split: option.splits)
    then have "(''dataDemand'', Null) \<in> set out" by (rule map_of_SomeD)
    from output_field[OF z[unfolded o p] this] obtain s x where
      s: "(''dataDemand'', s) \<in> set shp" and zs: "zparse s x = Inr Null" by blast
    from demand_schema m s o have "s = ZUnion [ZString, ZRecord ZString]" by auto
    with zs demand_union_out show False by blast
  qed
  then obtain d where "describe out = Inr d" using describe_total by blast
  then show ?thesis by (simp add: p generateDescription_def)
qed

lemma validated_sequence_shape:
  assumes "zparse ActionSequenceSchema raw = Inr parsed"
  shows "\<exists>kvs xs ys cs d. raw = Obj kvs \<and> get ''actions'' kvs = Arr xs \<and>
           list_all2 (\<lambda>x y. zparse AIActionSchema x = Inr y) xs ys \<and>
           (\<forall>c\<in>set cs. \<exists>s. c = Str s) \<and>
           parsed = Obj [(''actions'', Arr ys),
                         (''display'', Obj [(''code'', Arr cs), (''description'', Str d)])]"
proof -
  let ?D = "ZObject [(''code'', ZArray ZString), (''description'', ZString)] Strip"
  from assms obtain kvs ya yd where
    raw: "raw = Obj kvs"
    and a: "zparse (ZArray AIActionSchema) (get ''actions'' kvs) = Inr ya"
    and d: "zparse ?D (get ''display'' kvs) = Inr yd"
    and p: "parsed = Obj (filter (\<lambda>ky. snd ky \<noteq> Undefined \<or> has_key (fst ky) kvs)
                            [(''actions'', ya), (''display'', yd)])"
    unfolding ActionSequenceSchema_def object_def by (blast dest: zparse_object2)
  from zparse_array_out[OF a] obtain xs ys where
    xa: "get ''actions'' kvs = Arr xs" and ya: "ya = Arr ys"
    and r: "list_all2 (\<lambda>x y. zparse AIActionSchema x = Inr y) xs ys" by blast
  from zparse_object2[OF d] obtain dkvs yc ydesc where
    c: "zparse (ZArray ZString) (get ''code'' dkvs) = Inr yc"
    and ds: "zparse ZString (get ''description'' dkvs) = Inr ydesc"
    and yd: "yd = Obj (filter (\<lambda>ky. snd ky \<noteq> Undefined \<or> has_key (fst ky) dkvs)
                            [(''code'', yc), (''description'', ydesc)])"
    by blast
  from zparse_array_out[OF c] obtain cxs cys where
    yc: "yc = Arr cys" and cr: "list_all2 (\<lambda>x y. zparse ZString x = Inr y) cxs cys" by blast
  have cs: "\<forall>y\<in>set cys. \<exists>s. y = Str s"
    using list_all2_outputs[OF cr] zparse_string_out by blast
  from zparse_string_out[OF ds] obtain dtext where dt: "ydesc = Str dtext" by blast
  have "parsed = Obj [(''actions'', Arr ys),
                      (''display'', Obj [(''code'', Arr cys), (''description'', Str dtext)])]"
    by (simp add: p ya yd yc dt)
  with raw xa r cs show ?thesis by blast
qed

lemma draw_id_eq:
  "draw_id e w = (nanoid e (ids_drawn w), w\<lparr>ids_drawn := Suc (ids_drawn w)\<rparr>)"
  by (simp add: draw_id_def)

text \<open>
  When no description and no read of the display code throws, the \<open>map\<close> returns one
  pending step per action, in order, and draws one identifier per action.
\<close>

lemma steps_of_returns:
  assumes "\<forall>a\<in>set as. \<exists>d. generateDescription a = Inr d"
    and "\<forall>j. \<exists>rc. rawCode_at sq j = Inr rc"
  shows "\<exists>sts. steps_of e w sq as i = (Inr sts, w\<lparr>ids_drawn := ids_drawn w + length as\<rparr>) \<and>
           length sts = length as \<and>
           (\<forall>j<length as.
              action (sts ! j) = own_props (as ! j) \<and> status (sts ! j) = Pending \<and>
              step_id (sts ! j) = nanoid e (ids_drawn w + j) \<and>
              generateDescription (as ! j) = Inr (description (sts ! j)) \<and>
              rawCode_at sq (i + j) = Inr (rawCode (sts ! j)))"
  using assms(1)
proof (induction as arbitrary: w i)
  case Nil
  then show ?case by simp
next
  case (Cons a as)
  from Cons.prems obtain d where d: "generateDescription a = Inr d" by auto
  from assms(2) obtain rc where rc: "rawCode_at sq i = Inr rc" by blast
  define w1 where "w1 = w\<lparr>ids_drawn := Suc (ids_drawn w)\<rparr>"
  from Cons.prems have "\<forall>a\<in>set as. \<exists>d. generateDescription a = Inr d" by simp
  from Cons.IH[OF this, of w1 "Suc i"] obtain rest where
    r: "steps_of e w1 sq as (Suc i) = (Inr rest, w1\<lparr>ids_drawn := ids_drawn w1 + length as\<rparr>)"
    and l: "length rest = length as"
    and f: "\<forall>j<length as.
              action (rest ! j) = own_props (as ! j) \<and> status (rest ! j) = Pending \<and>
              step_id (rest ! j) = nanoid e (ids_drawn w1 + j) \<and>
              generateDescription (as ! j) = Inr (description (rest ! j)) \<and>
              rawCode_at sq (Suc i + j) = Inr (rawCode (rest ! j))"
    by blast
  let ?s = "new_step a (nanoid e (ids_drawn w)) d rc"
  have e1: "steps_of e w sq (a # as) i =
      (Inr (?s # rest), w\<lparr>ids_drawn := ids_drawn w + length (a # as)\<rparr>)"
    by (simp add: draw_id_eq d rc r[unfolded w1_def] w1_def)
  have e2: "length (?s # rest) = length (a # as)" using l by simp
  have e3: "\<forall>j<length (a # as).
              action ((?s # rest) ! j) = own_props ((a # as) ! j) \<and>
              status ((?s # rest) ! j) = Pending \<and>
              step_id ((?s # rest) ! j) = nanoid e (ids_drawn w + j) \<and>
              generateDescription ((a # as) ! j) = Inr (description ((?s # rest) ! j)) \<and>
              rawCode_at sq (i + j) = Inr (rawCode ((?s # rest) ! j))"
  proof (intro allI impI)
    fix j assume j: "j < length (a # as)"
    show "action ((?s # rest) ! j) = own_props ((a # as) ! j) \<and>
              status ((?s # rest) ! j) = Pending \<and>
              step_id ((?s # rest) ! j) = nanoid e (ids_drawn w + j) \<and>
              generateDescription ((a # as) ! j) = Inr (description ((?s # rest) ! j)) \<and>
              rawCode_at sq (i + j) = Inr (rawCode ((?s # rest) ! j))"
    proof (cases j)
      case 0
      then show ?thesis by (simp add: new_step_def d rc)
    next
      case (Suc j')
      with j have "j' < length as" by simp
      with f show ?thesis by (simp add: Suc w1_def)
    qed
  qed
  from e1 e2 e3 show ?case by blast
qed

lemma rawCode_at_validated:
  "rawCode_at (Obj [(''actions'', ya), (''display'', Obj [(''code'', Arr cs), (''description'', d)])]) j
     = Inr (if j < length cs then cs ! j else Undefined)"
  by (simp add: rawCode_at_def get_simps)

text \<open>
  \<open>parseTestCode\<close> on a source that JSON5 reads as a value the sequence schema accepts:
  it returns, and the steps are the validated actions, in order.
\<close>

lemma parseTestCode_validated:
  assumes j: "JSON5_parse e src = Inr raw" and z: "zparse ActionSequenceSchema raw = Inr parsed"
  shows "\<exists>sts xs ys.
           parseTestCode e w src = (Inr sts, w\<lparr>ids_drawn := ids_drawn w + length xs\<rparr>) \<and>
           read_prop raw ''actions'' = Inr (Arr xs) \<and>
           read_prop parsed ''actions'' = Inr (Arr ys) \<and>
           list_all2 (\<lambda>x y. zparse AIActionSchema x = Inr y) xs ys \<and>
           list_all2 (\<lambda>y s. y = Obj (action s) \<and> status s = Pending \<and>
                         generateDescription y = Inr (description s)) ys sts \<and>
           (\<forall>i<length sts. step_id (sts ! i) = nanoid e (ids_drawn w + i) \<and>
                           rawCode_at parsed i = Inr (rawCode (sts ! i)))"
proof -
  from validated_sequence_shape[OF z] obtain kvs xs ys cs d where
    raw: "raw = Obj kvs" and xa: "get ''actions'' kvs = Arr xs"
    and r: "list_all2 (\<lambda>x y. zparse AIActionSchema x = Inr y) xs ys"
    and p: "parsed = Obj [(''actions'', Arr ys),
                          (''display'', Obj [(''code'', Arr cs), (''description'', Str d)])]"
    by blast
  have len: "length xs = length ys" using r by (rule list_all2_lengthD)
  have ob: "\<forall>y\<in>set ys. \<exists>out dsc. y = Obj out \<and> generateDescription y = Inr dsc"
    using list_all2_outputs[OF r] described by blast
  then have g: "\<forall>a\<in>set ys. \<exists>dsc. generateDescription a = Inr dsc" by blast
  have rc: "\<forall>j. \<exists>rc. rawCode_at parsed j = Inr rc" by (simp add: p rawCode_at_validated)
  from steps_of_returns[OF g rc, of e w 0] obtain sts where
    s: "steps_of e w parsed ys 0 = (Inr sts, w\<lparr>ids_drawn := ids_drawn w + length ys\<rparr>)"
    and l: "length sts = length ys"
    and f: "\<forall>j<length ys.
              action (sts ! j) = own_props (ys ! j) \<and> status (sts ! j) = Pending \<and>
              step_id (sts ! j) = nanoid e (ids_drawn w + j) \<and>
              generateDescription (ys ! j) = Inr (description (sts ! j)) \<and>
              rawCode_at parsed (0 + j) = Inr (rawCode (sts ! j))"
    by blast
  have pa: "read_prop parsed ''actions'' = Inr (Arr ys)" by (simp add: p get_simps)
  have c1: "parseTestCode e w src = (Inr sts, w\<lparr>ids_drawn := ids_drawn w + length xs\<rparr>)"
    by (simp add: parseTestCode_def j z parseTestActionSequence_def pa s len)
  have c2: "read_prop raw ''actions'' = Inr (Arr xs)" by (simp add: raw xa)
  have c4: "list_all2 (\<lambda>y s. y = Obj (action s) \<and> status s = Pending \<and>
                         generateDescription y = Inr (description s)) ys sts"
    unfolding list_all2_conv_all_nth
  proof (intro conjI allI impI)
    show "length ys = length sts" using l by simp
  next
    fix i assume i: "i < length ys"
    then have "ys ! i \<in> set ys" by simp
    with ob obtain out where o: "ys ! i = Obj out" by blast
    from f i have "action (sts ! i) = own_props (ys ! i)" by simp
    then show "ys ! i = Obj (action (sts ! i))" by (simp add: o)
  next
    fix i assume "i < length ys"
    with f show "status (sts ! i) = Pending" by simp
  next
    fix i assume "i < length ys"
    with f show "generateDescription (ys ! i) = Inr (description (sts ! i))" by simp
  qed
  have c5: "\<forall>i<length sts. step_id (sts ! i) = nanoid e (ids_drawn w + i) \<and>
                           rawCode_at parsed i = Inr (rawCode (sts ! i))"
    using f l by simp
  from c1 c2 pa r c4 c5 show ?thesis by blast
qed

lemma parseTestCode_rejects:
  assumes "\<forall>raw. JSON5_parse e src = Inr raw \<longrightarrow> \<not> fst (validateActionSequence raw)"
  shows "\<exists>msg. parseTestCode e w src = (Inl (Error (''Failed to parse test code: '' @ msg)), w)"
proof (cases "JSON5_parse e src")
  case (Inl msg)
  then show ?thesis by (simp add: parseTestCode_def)
next
  case (Inr raw)
  with assms have "\<not> fst (validateActionSequence raw)" by simp
  then obtain issue where "zparse ActionSequenceSchema raw = Inl issue"
    by (cases "zparse ActionSequenceSchema raw") (auto simp: validateActionSequence_def)
  with Inr show ?thesis by (simp add: parseTestCode_def)
qed

lemma parseTestCode_returns_validated:
  assumes "parseTestCode e w src = (Inr sts, w')"
  shows "\<exists>raw. JSON5_parse e src = Inr raw \<and> fst (validateActionSequence raw)"
proof -
  from assms obtain raw where r: "JSON5_parse e src = Inr raw"
    by (cases "JSON5_parse e src") (auto simp: parseTestCode_def)
  with assms have "\<not> isl (zparse ActionSequenceSchema raw)"
    by (cases "zparse ActionSequenceSchema raw") (auto simp: parseTestCode_def)
  then have "fst (validateActionSequence raw)"
    by (simp add: validateActionSequence_accepts accepts_isl)
  with r show ?thesis by blast
qed

lemma parse_returns:
  assumes "\<not> isDestroyed ex"
    and "parseTestCodeOrActionSequence e w (actionSequence (testCase ex)) (code (testCase ex))
           = (Inr sts, w')"
  shows "parse e w ex = (Inr (), parsed_ok sts ex, w')"
  using assms by (simp add: parse_def parsed_ok_def emit_def getTestCase_def Let_def)

lemma parse_throws:
  assumes "\<not> isDestroyed ex"
    and "parseTestCodeOrActionSequence e w (actionSequence (testCase ex)) (code (testCase ex))
           = (Inl err, w')"
  shows "parse e w ex = (Inl err, parse_failed err ex, w')"
  using assms
  by (simp add: parse_def parse_failed_def updateStatus_def emit_def getTestCase_def Let_def)

text \<open>
  The behaviour of \<open>parse\<close> on an executor that is not destroyed, path by path.  Whatever
  the conversion returns becomes the step list and \<open>caseParsed\<close> is emitted; whatever it
  throws is recorded as the case's error, the case becomes \<open>failed\<close> with its notification,
  the error is rethrown and the step list stays as it was.  A truthy pre-supplied sequence
  takes precedence and goes through \<open>parseTestActionSequence\<close> alone.  Otherwise a
  non-empty code string is read by JSON5 and validated against the sequence shape: when
  both succeed \<open>parse\<close> returns and the steps are, in order, the validated forms of the
  actions read, each \<open>pending\<close>, with a new identifier and the code string found at its
  index; when either fails \<open>parse\<close> fails as above without drawing an identifier; and
  \<open>parse\<close> returns on this path only for a source that validation accepts.  With no
  sequence and no code the step list becomes empty.
\<close>

theorem parse_spec:
  assumes "\<not> isDestroyed ex"
  shows
   "(\<forall>sts w'. parseTestCodeOrActionSequence e w (actionSequence (testCase ex))
                 (code (testCase ex)) = (Inr sts, w') \<longrightarrow>
       parse e w ex = (Inr (), parsed_ok sts ex, w')) \<and>
    (\<forall>err w'. parseTestCodeOrActionSequence e w (actionSequence (testCase ex))
                 (code (testCase ex)) = (Inl err, w') \<longrightarrow>
       parse e w ex = (Inl err, parse_failed err ex, w') \<and>
       steps (testCase (parse_failed err ex)) = steps (testCase ex) \<and>
       case_status (testCase (parse_failed err ex)) = CaseFailed \<and>
       case_error (testCase (parse_failed err ex))
         = Some (message_or err ''Unknown code parsing error'')) \<and>
    (truthy (actionSequence (testCase ex)) \<longrightarrow>
       parseTestCodeOrActionSequence e w (actionSequence (testCase ex)) (code (testCase ex))
         = parseTestActionSequence e w (actionSequence (testCase ex))) \<and>
    (\<forall>src raw parsed. \<not> truthy (actionSequence (testCase ex)) \<and>
       code (testCase ex) = Some src \<and> src \<noteq> [] \<and> JSON5_parse e src = Inr raw \<and>
       zparse ActionSequenceSchema raw = Inr parsed \<longrightarrow>
       (\<exists>sts xs ys.
          parse e w ex = (Inr (), parsed_ok sts ex, w\<lparr>ids_drawn := ids_drawn w + length xs\<rparr>) \<and>
          read_prop raw ''actions'' = Inr (Arr xs) \<and>
          read_prop parsed ''actions'' = Inr (Arr ys) \<and>
          list_all2 (\<lambda>x y. zparse AIActionSchema x = Inr y) xs ys \<and>
          list_all2 (\<lambda>y s. y = Obj (action s) \<and> status s = Pending \<and>
                        generateDescription y = Inr (description s)) ys sts \<and>
          (\<forall>i<length sts. step_id (sts ! i) = nanoid e (ids_drawn w + i) \<and>
                          rawCode_at parsed i = Inr (rawCode (sts ! i))))) \<and>
    (\<forall>src. \<not> truthy (actionSequence (testCase ex)) \<and>
       code (testCase ex) = Some src \<and> src \<noteq> [] \<and>
       (\<forall>raw. JSON5_parse e src = Inr raw \<longrightarrow> \<not> fst (validateActionSequence raw)) \<longrightarrow>
       (\<exists>msg. parse e w ex =
          (Inl (Error (''Failed to parse test code: '' @ msg)),
           parse_failed (Error (''Failed to parse test code: '' @ msg)) ex, w))) \<and>
    (\<forall>src ex' w'. \<not> truthy (actionSequence (testCase ex)) \<and>
       code (testCase ex) = Some src \<and> src \<noteq> [] \<and> parse e w ex = (Inr (), ex', w') \<longrightarrow>
       (\<exists>raw. JSON5_parse e src = Inr raw \<and> fst (validateActionSequence raw))) \<and>
    (\<not> truthy (actionSequence (testCase ex)) \<and>
       (code (testCase ex) = None \<or> code (testCase ex) = Some []) \<longrightarrow>
       parse e w ex = (Inr (), parsed_ok [] ex, w))"
proof (intro conjI allI impI)
  fix sts w'
  assume "parseTestCodeOrActionSequence e w (actionSequence (testCase ex))
                 (code (testCase ex)) = (Inr sts, w')"
  then show "parse e w ex = (Inr (), parsed_ok sts ex, w')"
    using assms by (rule parse_returns[rotated])
next
  fix err w'
  assume "parseTestCodeOrActionSequence e w (actionSequence (testCase ex))
                 (code (testCase ex)) = (Inl err, w')"
  then show "parse e w ex = (Inl err, parse_failed err ex, w')"
    using assms by (rule parse_throws[rotated])
next
  fix err :: thrown
  show "steps (testCase (parse_failed err ex)) = steps (testCase ex)"
    by (simp add: parse_failed_def)
next
  fix err :: thrown
  show "case_status (testCase (parse_failed err ex)) = CaseFailed"
    by (simp add: parse_failed_def)
next
  fix err :: thrown
  show "case_error (testCase (parse_failed err ex))
         = Some (message_or err ''Unknown code parsing error'')"
    by (simp add: parse_failed_def)
next
  assume "truthy (actionSequence (testCase ex))"
  then show "parseTestCodeOrActionSequence e w (actionSequence (testCase ex)) (code (testCase ex))
         = parseTestActionSequence e w (actionSequence (testCase ex))"
    by (simp add: parseTestCodeOrActionSequence_def)
next
  fix src raw parsed
  assume a: "\<not> truthy (actionSequence (testCase ex)) \<and>
       code (testCase ex) = Some src \<and> src \<noteq> [] \<and> JSON5_parse e src = Inr raw \<and>
       zparse ActionSequenceSchema raw = Inr parsed"
  then have j: "JSON5_parse e src = Inr raw" and z: "zparse ActionSequenceSchema raw = Inr parsed"
    by simp_all
  from parseTestCode_validated[OF j z, of w] obtain sts xs ys where
    p: "parseTestCode e w src = (Inr sts, w\<lparr>ids_drawn := ids_drawn w + length xs\<rparr>)"
    and rest: "read_prop raw ''actions'' = Inr (Arr xs)"
      "read_prop parsed ''actions'' = Inr (Arr ys)"
      "list_all2 (\<lambda>x y. zparse AIActionSchema x = Inr y) xs ys"
      "list_all2 (\<lambda>y s. y = Obj (action s) \<and> status s = Pending \<and>
                        generateDescription y = Inr (description s)) ys sts"
      "\<forall>i<length sts. step_id (sts ! i) = nanoid e (ids_drawn w + i) \<and>
                          rawCode_at parsed i = Inr (rawCode (sts ! i))"
    by blast
  have "parseTestCodeOrActionSequence e w (actionSequence (testCase ex)) (code (testCase ex))
          = (Inr sts, w\<lparr>ids_drawn := ids_drawn w + length xs\<rparr>)"
    using a p by (simp add: parseTestCodeOrActionSequence_def)
  then have "parse e w ex = (Inr (), parsed_ok sts ex, w\<lparr>ids_drawn := ids_drawn w + length xs\<rparr>)"
    using assms by (rule parse_returns[rotated])
  with rest show "\<exists>sts xs ys.
          parse e w ex = (Inr (), parsed_ok sts ex, w\<lparr>ids_drawn := ids_drawn w + length xs\<rparr>) \<and>
          read_prop raw ''actions'' = Inr (Arr xs) \<and>
          read_prop parsed ''actions'' = Inr (Arr ys) \<and>
          list_all2 (\<lambda>x y. zparse AIActionSchema x = Inr y) xs ys \<and>
          list_all2 (\<lambda>y s. y = Obj (action s) \<and> status s = Pending \<and>
                        generateDescription y = Inr (description s)) ys sts \<and>
          (\<forall>i<length sts. step_id (sts ! i) = nanoid e (ids_drawn w + i) \<and>
                          rawCode_at parsed i = Inr (rawCode (sts ! i)))"
    by blast
next
  fix src
  assume a: "\<not> truthy (actionSequence (testCase ex)) \<and>
       code (testCase ex) = Some src \<and> src \<noteq> [] \<and>
       (\<forall>raw. JSON5_parse e src = Inr raw \<longrightarrow> \<not> fst (validateActionSequence raw))"
  then obtain msg where
    p: "parseTestCode e w src = (Inl (Error (''Failed to parse test code: '' @ msg)), w)"
    using parseTestCode_rejects[of e src w] by blast
  have "parseTestCodeOrActionSequence e w (actionSequence (testCase ex)) (code (testCase ex))
          = (Inl (Error (''Failed to parse test code: '' @ msg)), w)"
    using a p by (simp add: parseTestCodeOrActionSequence_def)
  then have "parse e w ex =
          (Inl (Error (''Failed to parse test code: '' @ msg)),
           parse_failed (Error (''Failed to parse test code: '' @ msg)) ex, w)"
    using assms by (rule parse_throws[rotated])
  then show "\<exists>msg. parse e w ex =
          (Inl (Error (''Failed to parse test code: '' @ msg)),
           parse_failed (Error (''Failed to parse test code: '' @ msg)) ex, w)" by blast
next
  fix src ex' w'
  assume a: "\<not> truthy (actionSequence (testCase ex)) \<and>
       code (testCase ex) = Some src \<and> src \<noteq> [] \<and> parse e w ex = (Inr (), ex', w')"
  obtain r w2 where q: "parseTestCode e w src = (r, w2)" by force
  have pc: "parseTestCodeOrActionSequence e w (actionSequence (testCase ex)) (code (testCase ex))
          = (r, w2)"
    using a q by (simp add: parseTestCodeOrActionSequence_def)
  have "\<exists>sts. r = Inr sts"
  proof (cases r)
    case (Inl err)
    with pc assms have "parse e w ex = (Inl err, parse_failed err ex, w2)"
      by (simp add: parse_throws)
    with a show ?thesis by simp
  next
    case (Inr sts)
    then show ?thesis by blast
  qed
  then obtain sts where "parseTestCode e w src = (Inr sts, w2)" using q by blast
  then show "\<exists>raw. JSON5_parse e src = Inr raw \<and> fst (validateActionSequence raw)"
    by (rule parseTestCode_returns_validated)
next
  assume a: "\<not> truthy (actionSequence (testCase ex)) \<and>
       (code (testCase ex) = None \<or> code (testCase ex) = Some [])"
  then have "parseTestCodeOrActionSequence e w (actionSequence (testCase ex)) (code (testCase ex))
          = (Inr [], w)"
    by (auto simp: parseTestCodeOrActionSequence_def)
  then show "parse e w ex = (Inr (), parsed_ok [] ex, w)"
    using assms by (rule parse_returns[rotated])
qed

theorem parse_spec_witness:
  "\<not> isDestroyed code_executor \<and>
   \<not> truthy (actionSequence (testCase code_executor)) \<and>
   code (testCase code_executor) = Some ''{actions: [{type: aiTap}]'' \<and>
   fst (validateActionSequence valid_sequence) \<and>
   fst (parse (reading_env valid_sequence) demo_world code_executor) = Inr () \<and>
   map action (steps (testCase (fst (snd (parse (reading_env valid_sequence) demo_world
                                              code_executor)))))
     = [[(''type'', Str ''aiWaitFor''), (''assertion'', Str ''spinner is gone''),
         (''timeoutMs'', Num 5000)], assert_action] \<and>
   map rawCode (steps (testCase (fst (snd (parse (reading_env valid_sequence) demo_world
                                              code_executor)))))
     = [Str ''await aiWaitFor(...)'', Str ''await aiAssert(...)''] \<and>
   \<not> fst (validateActionSequence malformed_sequence) \<and>
   (\<exists>msg. parse (reading_env malformed_sequence) demo_world code_executor =
      (Inl (Error (''Failed to parse test code: '' @ msg)),
       parse_failed (Error (''Failed to parse test code: '' @ msg)) code_executor, demo_world)) \<and>
   map step_id (steps (testCase (fst (snd (parse (reading_env malformed_sequence) demo_world
                                              code_executor))))) = [''old''] \<and>
   case_status (testCase (fst (snd (parse (reading_env malformed_sequence) demo_world
                                          code_executor)))) = CaseFailed \<and>
   fst (parse demo_env demo_world code_executor)
     = Inl (Error ''Failed to parse test code: JSON5: invalid character'')"
proof -
  let ?src = "''{actions: [{type: aiTap}]''"
  have d: "\<not> isDestroyed code_executor" by (simp add: code_executor_def demo_executor_def)
  have s: "\<not> truthy (actionSequence (testCase code_executor))"
    "code (testCase code_executor) = Some ?src" "?src \<noteq> []"
    by (simp_all add: code_executor_def demo_executor_def)
  have v: "fst (validateActionSequence valid_sequence)" by code_simp
  have n: "\<not> fst (validateActionSequence malformed_sequence)" by code_simp
  have jv: "JSON5_parse (reading_env valid_sequence) ?src = Inr valid_sequence"
    by (simp add: reading_env_def)
  have jm: "\<forall>raw. JSON5_parse (reading_env malformed_sequence) ?src = Inr raw \<longrightarrow>
              \<not> fst (validateActionSequence raw)"
    using n by (simp add: reading_env_def)
  from v obtain parsed where z: "zparse ActionSequenceSchema valid_sequence = Inr parsed"
    by (cases "zparse ActionSequenceSchema valid_sequence")
       (auto simp: validateActionSequence_def)
  from parse_spec[OF d, of "reading_env valid_sequence" demo_world] s jv z
  obtain sts w' where "parse (reading_env valid_sequence) demo_world code_executor
      = (Inr (), parsed_ok sts code_executor, w')" by blast
  then have ok: "fst (parse (reading_env valid_sequence) demo_world code_executor) = Inr ()"
    by simp
  from parse_spec[OF d, of "reading_env malformed_sequence" demo_world] s jm
  obtain msg where f: "parse (reading_env malformed_sequence) demo_world code_executor =
      (Inl (Error (''Failed to parse test code: '' @ msg)),
       parse_failed (Error (''Failed to parse test code: '' @ msg)) code_executor, demo_world)"
    by blast
  have st: "map step_id (steps (testCase code_executor)) = [''old'']"
    by (simp add: code_executor_def demo_executor_def pending_step_def)
  have f1: "map step_id (steps (testCase (fst (snd (parse (reading_env malformed_sequence)
              demo_world code_executor))))) = [''old'']"
    by (simp add: f parse_failed_def st)
  have f2: "case_status (testCase (fst (snd (parse (reading_env malformed_sequence) demo_world
                                          code_executor)))) = CaseFailed"
    by (simp add: f parse_failed_def)
  have a: "map action (steps (testCase (fst (snd (parse (reading_env valid_sequence) demo_world
                                              code_executor)))))
     = [[(''type'', Str ''aiWaitFor''), (''assertion'', Str ''spinner is gone''),
         (''timeoutMs'', Num 5000)], assert_action]"
    by code_simp
  have r: "map rawCode (steps (testCase (fst (snd (parse (reading_env valid_sequence) demo_world
                                              code_executor)))))
     = [Str ''await aiWaitFor(...)'', Str ''await aiAssert(...)'']"
    by code_simp
  have j5: "fst (parse demo_env demo_world code_executor)
     = Inl (Error ''Failed to parse test code: JSON5: invalid character'')"
    by code_simp
  have ex: "\<exists>msg. parse (reading_env malformed_sequence) demo_world code_executor =
      (Inl (Error (''Failed to parse test code: '' @ msg)),
       parse_failed (Error (''Failed to parse test code: '' @ msg)) code_executor, demo_world)"
    using f by blast
  show ?thesis using d s(1) s(2) v ok a r n ex f1 f2 j5 by (intro conjI) assumption+
qed

text \<open>
  Claim C7.  The code does not do what the claim says for a pre-supplied sequence, although
  the comment on the spread in \<open>parseTestActionSequence\<close> says the type has been validated.
  A pre-supplied sequence whose only action is an \<open>aiTap\<close> without \<open>locate\<close> is rejected by
  the validation of sequences and of actions, yet \<open>parse\<close> returns: the action becomes a
  pending step, no error is recorded and the case stays \<open>created\<close>.  The same value read
  from the code string fails validation: the error is recorded, the case is \<open>failed\<close>, the
  error is rethrown and the step list stays as it was.  A pre-supplied sequence makes
  \<open>parse\<close> fail only when the conversion itself throws, as for an \<open>aiQuery\<close> whose data
  demand is \<open>null\<close>.
\<close>

theorem presupplied_sequence_not_validated:
  "isDestroyed (presupplied_executor malformed_sequence) = False \<and>
   validateActionSequence malformed_sequence = (False, Some ''invalid_type'') \<and>
   validateAction (Obj [(''type'', Str ''aiTap'')]) = (False, Some ''invalid_type'') \<and>
   fst (parse demo_env demo_world (presupplied_executor malformed_sequence)) = Inr () \<and>
   steps (testCase (fst (snd (parse demo_env demo_world (presupplied_executor malformed_sequence)))))
     = [\<lparr>action = [(''type'', Str ''aiTap'')], step_id = ''id0'',
         description = ''AI tap: undefined'', status = Pending, startTime = Undefined,
         endTime = Undefined, error = Undefined, result = Undefined,
         rawCode = Str ''await aiTap()''\<rparr>] \<and>
   case_error (testCase (fst (snd (parse demo_env demo_world
                                     (presupplied_executor malformed_sequence))))) = None \<and>
   case_status (testCase (fst (snd (parse demo_env demo_world
                                      (presupplied_executor malformed_sequence))))) = Created \<and>
   fst (parse (reading_env malformed_sequence) demo_world code_executor)
     = Inl (Error ''Failed to parse test code: invalid_type'') \<and>
   case_error (testCase (fst (snd (parse (reading_env malformed_sequence) demo_world
                                     code_executor))))
     = Some ''Failed to parse test code: invalid_type'' \<and>
   case_status (testCase (fst (snd (parse (reading_env malformed_sequence) demo_world
                                      code_executor)))) = CaseFailed \<and>
   map step_id (steps (testCase (fst (snd (parse (reading_env malformed_sequence) demo_world
                                             code_executor))))) = [''old''] \<and>
   fst (parse demo_env demo_world (presupplied_executor null_demand_sequence))
     = Inl TypeError \<and>
   case_status (testCase (fst (snd (parse demo_env demo_world
                                      (presupplied_executor null_demand_sequence))))) = CaseFailed \<and>
   map step_id (steps (testCase (fst (snd (parse demo_env demo_world
                                      (presupplied_executor null_demand_sequence)))))) = [''old'']"
  by code_simp

section \<open>Reset\<close>

text \<open>
  Claim C9, as amended.  \<open>reset\<close> has no guard: from every status it sets the case to
  \<open>created\<close>, empties the step list and emits the case-status notification.
\<close>

theorem reset_unconditional:
  "reset ex =
     ex\<lparr>testCase := (testCase ex)\<lparr>case_status := Created, steps := []\<rparr>,
        emitted := emitted ex @
          [caseStatusChanged ((testCase ex)\<lparr>case_status := Created, steps := []\<rparr>)]\<rparr>"
  by (simp add: reset_def Let_def emit_def getTestCase_def)

text \<open>Claim C9 as stated fails: a running case is reset to \<open>created\<close>.\<close>

theorem reset_running_counterexample:
  "case_status (testCase running_executor) = CaseRunning \<and>
   case_status (testCase (reset running_executor)) = Created \<and>
   steps (testCase (reset running_executor)) = []"
  by (simp add: running_executor_def reset_def Let_def emit_def demo_executor_def)

section \<open>Snapshots\<close>

lemma view_cong:
  "case_objects h' r' = case_objects h r \<Longrightarrow> step_arrays h' = step_arrays h \<Longrightarrow>
   step_objects h' = step_objects h \<Longrightarrow> view h' r' = view h r"
  by (simp add: view_def split: option.splits)

text \<open>
  Claim C8, as amended.  Two consecutive snapshots are new objects, different from each
  other and from the executor's case object, and all three denote the same case.
  Assigning a field of a snapshot changes neither the executor's case nor the other
  snapshot.
\<close>

theorem snapshot_shallow_copy:
  assumes c1: "getTestCase_ref h this = Some (r1, h1)"
    and c2: "getTestCase_ref h1 this = Some (r2, h2)"
    and f1: "case_objects h (next_ref h) = None"
    and f2: "case_objects h (Suc (next_ref h)) = None"
  shows "r1 \<noteq> this \<and> r2 \<noteq> this \<and> r1 \<noteq> r2 \<and>
         view h2 r1 = view h this \<and> view h2 r2 = view h this \<and> view h2 this = view h this \<and>
         view (assign_case_field r1 f h2) this = view h this \<and>
         view (assign_case_field r1 f h2) r2 = view h this"
proof -
  obtain c where c: "case_objects h this = Some c"
    using c1 by (auto simp: getTestCase_ref_def split: option.splits)
  have r1: "r1 = next_ref h"
    and h1: "h1 = h\<lparr>case_objects := (case_objects h)(next_ref h \<mapsto> c), next_ref := Suc (next_ref h)\<rparr>"
    using c1 c by (auto simp: getTestCase_ref_def)
  have n1: "this \<noteq> next_ref h" "this \<noteq> Suc (next_ref h)" using c f1 f2 by auto
  have c': "case_objects h1 this = Some c" using c n1 by (simp add: h1)
  have r2: "r2 = Suc (next_ref h)"
    and h2: "h2 = h1\<lparr>case_objects := (case_objects h1)(Suc (next_ref h) \<mapsto> c), next_ref := Suc (Suc (next_ref h))\<rparr>"
    using c2 c' by (auto simp: getTestCase_ref_def h1)
  have v: "view h2 r1 = view h this" "view h2 r2 = view h this" "view h2 this = view h this"
    using n1 by (auto intro!: view_cong simp: h2 h1 r1 r2 c)
  have w: "view (assign_case_field r1 f h2) this = view h this"
     "view (assign_case_field r1 f h2) r2 = view h this"
    using n1 by (auto intro!: view_cong simp: assign_case_field_def h2 h1 r1 r2 c)
  show ?thesis using n1 v w by (simp add: r1 r2)
qed

theorem snapshot_shallow_copy_witness:
  "getTestCase_ref demo_store 0 = Some demo_snapshot \<and>
   getTestCase_ref (snd demo_snapshot) 0 =
     Some (the (getTestCase_ref (snd demo_snapshot) 0)) \<and>
   case_objects demo_store (next_ref demo_store) = None \<and>
   case_objects demo_store (Suc (next_ref demo_store)) = None \<and>
   fst demo_snapshot \<noteq> fst (the (getTestCase_ref (snd demo_snapshot) 0)) \<and>
   view (snd (the (getTestCase_ref (snd demo_snapshot) 0))) (fst demo_snapshot) = view demo_store 0 \<and>
   view (assign_case_field (fst demo_snapshot) stop_case
           (snd (the (getTestCase_ref (snd demo_snapshot) 0)))) 0 = view demo_store 0 \<and>
   map status (steps (the (view demo_store 0))) = [Pending]"
proof -
  have c1: "getTestCase_ref demo_store 0 = Some (fst demo_snapshot, snd demo_snapshot)"
    by (simp add: demo_snapshot_def getTestCase_ref_def demo_store_def)
  have c2: "getTestCase_ref (snd demo_snapshot) 0 =
     Some (fst (the (getTestCase_ref (snd demo_snapshot) 0)),
           snd (the (getTestCase_ref (snd demo_snapshot) 0)))"
    by (simp add: demo_snapshot_def getTestCase_ref_def demo_store_def)
  have f1: "case_objects demo_store (next_ref demo_store) = None"
    and f2: "case_objects demo_store (Suc (next_ref demo_store)) = None"
    by (simp_all add: demo_store_def)
  have v: "map status (steps (the (view demo_store 0))) = [Pending]" by code_simp
  from snapshot_shallow_copy[OF c1 c2 f1 f2, of stop_case] show ?thesis
    using c1 c2 f1 f2 v by simp
qed

text \<open>
  Claim C8 as stated fails: the snapshot holds the reference of the executor's step array,
  so assigning the status of a step reached through the snapshot changes the executor's
  case.
\<close>

theorem snapshot_shares_steps_counterexample:
  "fst demo_snapshot \<noteq> 0 \<and>
   map status (steps (the (view (snd demo_snapshot) 0))) = [Pending] \<and>
   map status (steps (the (view (assign_step_field (fst demo_snapshot) 0 skip_step
                                   (snd demo_snapshot)) 0))) = [Skipped]"
  by code_simp

end
